theory Spec2Isabelle
  imports Complex_Main
begin

section \<open>The order routes of the e-commerce backend\<close>

text \<open>
  The theory embeds the order router of the backend: the creation of an order
  (\<^verbatim>\<open>router.post('/')\<close>) and the self-service cancellation
  (\<^verbatim>\<open>router.patch('/:id/cancel')\<close>). The relational store is a record
  of tables, each a list of rows in insertion order, with the counters of the
  auto-increment keys. A statement on the transactional connection either throws or
  returns its rows and the updated tables; which statements throw is an input
  (\<open>stmt_fails\<close>), as are the results of \<^verbatim>\<open>Math.random()\<close> and of
  \<^verbatim>\<open>Date.now()\<close>.

  The request body is typed at the boundary. Identifiers, prices and the total are JSON
  numbers or absent (\<open>None\<close> stands for \<^verbatim>\<open>undefined\<close> and
  \<^verbatim>\<open>null\<close>), a quantity is a number, the components of an address are
  text. Amounts are exact integers. The numbers from which a tracking number is computed
  are doubles, and the product formed there is rounded as IEEE 754 arithmetic rounds it.
  The fields \<^verbatim>\<open>payment_method\<close>, \<^verbatim>\<open>subtotal\<close>,
  \<^verbatim>\<open>shipping\<close> and \<^verbatim>\<open>tax\<close> of the body are read and never
  used. The columns \<^verbatim>\<open>created_at\<close> and \<^verbatim>\<open>updated_at\<close>
  are left out: no statement of the router reads them except to sort a listing.
\<close>

subsection \<open>Request values\<close>

text \<open>JavaScript truthiness of a number that may be absent, and the operator \<^verbatim>\<open>||\<close>.\<close>

definition truthy :: "int option \<Rightarrow> bool" where
  "truthy v = (case v of None \<Rightarrow> False | Some n \<Rightarrow> n \<noteq> 0)"

definition js_or :: "int option \<Rightarrow> int option \<Rightarrow> int option" where
  "js_or a b = (if truthy a then a else b)"

record address =
  street :: string
  city :: string
  state :: string
  country :: string
  postal_code :: string

record item =
  variant_id :: "int option"
  product_id :: "int option"
  quantity :: int
  unit_price :: "int option"
  price :: "int option"

text \<open>
  The field \<^verbatim>\<open>items\<close> of the body: a falsy value, a truthy value that is
  not an array, or an array of items.
\<close>

datatype items_field = ItemsAbsent | ItemsNotArray | ItemsArray "item list"

record order_request =
  clerk_user_id :: string
  items :: items_field
  shipping_address :: "address option"
  billing_address :: "address option"
  total :: "int option"

subsection \<open>Tables\<close>

datatype order_status = Pending | Processing | Shipped | Delivered | Cancelled

record user_row =
  usr_user_id :: int
  usr_clerk_id :: string

record address_row =
  a_address_id :: int
  a_user_id :: int
  a_street :: string
  a_city :: string
  a_state :: string
  a_country :: string
  a_postal_code :: string
  a_is_shipping :: "bool option"
  a_is_billing :: "bool option"

record order_row =
  o_order_id :: int
  o_user_id :: int
  o_total_amount :: "int option"
  o_currency_id :: int
  o_language_id :: int
  o_status :: order_status
  o_shipping_address_id :: int
  o_billing_address_id :: int
  o_tracking_number :: "string option"

record order_item_row =
  oi_order_item_id :: int
  oi_order_id :: int
  oi_variant_id :: "int option"
  oi_quantity :: int
  oi_unit_price :: "int option"

record variant_row =
  pv_variant_id :: int
  pv_product_id :: "int option"
  pv_stock_quantity :: int
  pv_size :: "string option"
  pv_color :: "string option"

record product_row =
  p_product_id :: int
  p_base_name :: "string option"

record db =
  users :: "user_row list"
  addresses :: "address_row list"
  orders :: "order_row list"
  order_items :: "order_item_row list"
  product_variants :: "variant_row list"
  products :: "product_row list"
  next_address_id :: int
  next_order_id :: int
  next_order_item_id :: int

subsection \<open>Environment, connection, errors, responses\<close>

text \<open>
  \<open>math_random e k\<close> is the result of the \<open>k\<close>-th call of
  \<^verbatim>\<open>Math.random()\<close> in the request, \<open>date_now e\<close> the value of
  \<^verbatim>\<open>Date.now()\<close>, and \<open>stmt_fails e n\<close> says that the \<open>n\<close>-th
  statement issued on the transactional connection throws, counted from 0. The lookup of
  the user runs on the pool before the transaction and is taken to complete, as are
  \<^verbatim>\<open>beginTransaction\<close>, \<^verbatim>\<open>commit\<close> and \<^verbatim>\<open>rollback\<close>.
\<close>

record env =
  math_random :: "nat \<Rightarrow> real"
  date_now :: nat
  stmt_fails :: "nat \<Rightarrow> bool"

text \<open>
  A connection holds the tables as its transaction sees them (\<open>work\<close>) and counts the
  statements it has completed. The tables that the server has committed are kept beside
  it, in the session: \<^verbatim>\<open>beginTransaction\<close> starts from them,
  \<^verbatim>\<open>commit\<close> makes the tables of the connection the committed ones, and
  \<^verbatim>\<open>rollback\<close> discards what the connection has written since.
\<close>

record conn =
  work :: db
  stmts :: nat

record session =
  committed :: db
  connection :: conn

definition getConnection :: "db \<Rightarrow> session" where
  "getConnection d = \<lparr>committed = d, connection = \<lparr>work = d, stmts = 0\<rparr>\<rparr>"

definition beginTransaction :: "session \<Rightarrow> session" where
  "beginTransaction s = s\<lparr>connection := (connection s)\<lparr>work := committed s\<rparr>\<rparr>"

definition commit :: "session \<Rightarrow> session" where
  "commit s = s\<lparr>committed := work (connection s)\<rparr>"

definition rollback :: "session \<Rightarrow> session" where
  "rollback s = s\<lparr>connection := (connection s)\<lparr>work := committed s\<rparr>\<rparr>"

text \<open>
  \<open>DbError n\<close> is the exception of the driver when statement \<open>n\<close> fails,
  \<open>JsError m\<close> is \<^verbatim>\<open>new Error(m)\<close> thrown by the handler, and
  \<open>TypeError\<close> the exception of a property access on \<^verbatim>\<open>undefined\<close>.
\<close>

datatype error = DbError nat | JsError string | TypeError

record item_view =
  iv_item :: order_item_row
  iv_product_name :: "string option"
  iv_size :: "string option"
  iv_color :: "string option"

record order_view =
  ov_order :: order_row
  ov_shipping :: "address option"
  ov_billing :: "address option"
  ov_items :: "item_view list"

record response =
  http_status :: nat
  success :: bool
  message :: string
  error :: "error option"
  data :: "order_view option"

text \<open>
  A statement that throws leaves the connection as it found it. An exception is paired with
  the connection at the moment it is thrown, which still holds what the transaction has
  written until then.
\<close>

definition query :: "env \<Rightarrow> (db \<Rightarrow> 'a \<times> db) \<Rightarrow> conn \<Rightarrow> (error \<times> conn) + ('a \<times> conn)" where
  "query e f c =
     (if stmt_fails e (stmts c) then Inl (DbError (stmts c), c)
      else (case f (work c) of (r, d') \<Rightarrow> Inr (r, \<lparr>work = d', stmts = Suc (stmts c)\<rparr>)))"

definition getUserByClerkId :: "db \<Rightarrow> string \<Rightarrow> user_row option" where
  "getUserByClerkId d clerkId = find (\<lambda>u. usr_clerk_id u = clerkId) (users d)"

subsection \<open>Steps 1 and 2: the address is reused or inserted\<close>

text \<open>
  The handler has the same block twice, first for the shipping address and then for the
  billing address; \<open>address_step\<close> is that block, and the role tells the two apart.
  The \<^verbatim>\<open>SELECT\<close> compares the user and the five components for equality.
\<close>

datatype address_role = Shipping | Billing

definition address_matches :: "int \<Rightarrow> address \<Rightarrow> address_row \<Rightarrow> bool" where
  "address_matches uid a r =
     (a_user_id r = uid \<and> a_street r = street a \<and> a_city r = city a \<and> a_state r = state a
      \<and> a_country r = country a \<and> a_postal_code r = postal_code a)"

definition select_address :: "int \<Rightarrow> address \<Rightarrow> db \<Rightarrow> address_row list \<times> db" where
  "select_address uid a d = (filter (address_matches uid a) (addresses d), d)"

text \<open>
  The two \<^verbatim>\<open>INSERT INTO addresses\<close> differ in the flag they set; the other
  flag is left to the column's default (\<open>None\<close>).
\<close>

definition new_address_row :: "int \<Rightarrow> int \<Rightarrow> address \<Rightarrow> address_role \<Rightarrow> address_row" where
  "new_address_row aid uid a role =
     \<lparr>a_address_id = aid, a_user_id = uid, a_street = street a, a_city = city a,
      a_state = state a, a_country = country a, a_postal_code = postal_code a,
      a_is_shipping = (case role of Shipping \<Rightarrow> Some True | Billing \<Rightarrow> None),
      a_is_billing = (case role of Shipping \<Rightarrow> None | Billing \<Rightarrow> Some True)\<rparr>"

definition insert_address :: "int \<Rightarrow> address \<Rightarrow> address_role \<Rightarrow> db \<Rightarrow> int \<times> db" where
  "insert_address uid a role d =
     (next_address_id d,
      d\<lparr>addresses := addresses d @ [new_address_row (next_address_id d) uid a role],
        next_address_id := next_address_id d + 1\<rparr>)"

definition address_step ::
  "env \<Rightarrow> int \<Rightarrow> address \<Rightarrow> address_role \<Rightarrow> conn \<Rightarrow> (error \<times> conn) + (int \<times> conn)" where
  "address_step e uid a role c =
     (case query e (select_address uid a) c of
        Inl x \<Rightarrow> Inl x
      | Inr (existing, c1) \<Rightarrow>
          (case existing of
             r # rs \<Rightarrow> Inr (a_address_id r, c1)
           | [] \<Rightarrow> query e (insert_address uid a role) c1))"

subsection \<open>Step 3: the tracking number\<close>

definition digit_char :: "nat \<Rightarrow> char" where
  "digit_char n = ''0123456789'' ! n"

function show_nat :: "nat \<Rightarrow> string" where
  "show_nat n = (if n < 10 then [digit_char n] else show_nat (n div 10) @ [digit_char (n mod 10)])"
  by pat_completeness auto
termination
  by (relation "measure (\<lambda>n. n)") auto

declare show_nat.simps [simp del]

definition show_int :: "int \<Rightarrow> string" where
  "show_int i = (if i < 0 then CHR ''-'' # show_nat (nat (- i)) else show_nat (nat i))"

text \<open>\<^verbatim>\<open>s.slice(-n)\<close> and \<^verbatim>\<open>s.padStart(n, c)\<close> for a pad of one character.\<close>

definition slice_last :: "nat \<Rightarrow> string \<Rightarrow> string" where
  "slice_last n s = drop (length s - n) s"

definition padStart :: "nat \<Rightarrow> char \<Rightarrow> string \<Rightarrow> string" where
  "padStart n c s = replicate (n - length s) c @ s"

definition maxAttempts :: nat where
  "maxAttempts = 10"

text \<open>
  The numbers of the generator are doubles. For \<open>x > 0\<close>, \<open>binade x\<close> is the exponent
  \<open>k\<close> with \<open>2 powi k \<le> x < 2 powi (k + 1)\<close>, and \<open>ulp x\<close> is the spacing of
  the doubles there: 53 significant bits, and \<open>2 powi (- 1074)\<close> below the normal range.
  \<open>round_double\<close> rounds to the nearest multiple of the spacing, a tie to the even one,
  and \<open>js_times\<close> is the operator \<^verbatim>\<open>*\<close>: the exact product, rounded. Overflow is
  left out; the products formed here are below 100000000. The other operations of the
  generator, \<^verbatim>\<open>max - min + 1\<close>, \<^verbatim>\<open>Math.floor\<close> and \<^verbatim>\<open>+ min\<close>,
  act on integers below \<open>2 ^ 53\<close> and are exact.
\<close>

function binade :: "real \<Rightarrow> int" where
  "binade x =
     (if x \<le> 0 then 0
      else if x < 1 then binade (2 * x) - 1
      else if 2 \<le> x then binade (x / 2) + 1
      else 0)"
  by pat_completeness auto
termination
proof (relation "measure (\<lambda>x. nat \<bar>\<lfloor>log 2 x\<rfloor>\<bar>)")
  show "wf (measure (\<lambda>x. nat \<bar>\<lfloor>log 2 x\<rfloor>\<bar>))" by simp
next
  fix x :: real
  assume a: "\<not> x \<le> 0" "x < 1"
  have l: "log 2 (2 * x) = 1 + log 2 x" using a by (simp add: log_mult)
  have "log 2 x < 0" using a by simp
  hence k: "\<lfloor>log 2 x\<rfloor> < 0" by linarith
  have k2: "\<lfloor>log 2 (2 * x)\<rfloor> = \<lfloor>log 2 x\<rfloor> + 1" unfolding l by linarith
  have "nat \<bar>\<lfloor>log 2 (2 * x)\<rfloor>\<bar> < nat \<bar>\<lfloor>log 2 x\<rfloor>\<bar>"
    unfolding k2 using k by linarith
  thus "(2 * x, x) \<in> measure (\<lambda>x. nat \<bar>\<lfloor>log 2 x\<rfloor>\<bar>)" by (simp only: in_measure)
next
  fix x :: real
  assume a: "\<not> x \<le> 0" "\<not> x < 1" "2 \<le> x"
  have l: "log 2 (x / 2) = log 2 x - 1" using a by (simp add: log_divide)
  have "1 \<le> log 2 x" using a by (simp add: le_log_iff)
  hence k: "1 \<le> \<lfloor>log 2 x\<rfloor>" by linarith
  have k2: "\<lfloor>log 2 (x / 2)\<rfloor> = \<lfloor>log 2 x\<rfloor> - 1" unfolding l by linarith
  have "nat \<bar>\<lfloor>log 2 (x / 2)\<rfloor>\<bar> < nat \<bar>\<lfloor>log 2 x\<rfloor>\<bar>"
    unfolding k2 using k by linarith
  thus "(x / 2, x) \<in> measure (\<lambda>x. nat \<bar>\<lfloor>log 2 x\<rfloor>\<bar>)" by (simp only: in_measure)
qed

declare binade.simps [simp del]

definition ulp :: "real \<Rightarrow> real" where
  "ulp x = 2 powi (max (binade x) (- 1022) - 52)"

definition round_even :: "real \<Rightarrow> int" where
  "round_even y =
     (let f = \<lfloor>y\<rfloor>; d = y - of_int f
      in if d < 1 / 2 then f
         else if 1 / 2 < d then f + 1
         else if even f then f else f + 1)"

definition round_double :: "real \<Rightarrow> real" where
  "round_double x =
     (if x = 0 then 0
      else sgn x * (of_int (round_even (\<bar>x\<bar> / ulp \<bar>x\<bar>)) * ulp \<bar>x\<bar>))"

definition js_times :: "real \<Rightarrow> real \<Rightarrow> real" where
  "js_times a b = round_double (a * b)"

definition generateProfessionalTrackingNumber :: "real \<Rightarrow> string" where
  "generateProfessionalTrackingNumber r =
     (let min = 100000; max = 99999999;
          randomDigits = \<lfloor>js_times r (real_of_int (max - min + 1))\<rfloor> + min
      in ''TRK'' @ show_int randomDigits)"

definition select_tracking :: "string \<Rightarrow> db \<Rightarrow> order_row list \<times> db" where
  "select_tracking tn d = (filter (\<lambda>r. o_tracking_number r = Some tn) (orders d), d)"

text \<open>
  The loop \<^verbatim>\<open>while (!isUnique && attempts < maxAttempts)\<close>. The variable
  \<^verbatim>\<open>trackingNumber\<close> starts undefined (\<open>None\<close>); the attempt \<open>k\<close>
  makes the \<open>k\<close>-th call of \<^verbatim>\<open>Math.random()\<close>.
\<close>

function tracking_loop ::
  "env \<Rightarrow> string option \<Rightarrow> bool \<Rightarrow> nat \<Rightarrow> conn \<Rightarrow>
     (error \<times> conn) + ((string option \<times> bool \<times> nat) \<times> conn)" where
  "tracking_loop e trackingNumber isUnique attempts c =
     (if \<not> isUnique \<and> attempts < maxAttempts then
        (let tn = generateProfessionalTrackingNumber (math_random e attempts) in
         case query e (select_tracking tn) c of
           Inl x \<Rightarrow> Inl x
         | Inr (existingTracking, c1) \<Rightarrow>
             tracking_loop e (Some tn) (length existingTracking = 0) (Suc attempts) c1)
      else Inr ((trackingNumber, isUnique, attempts), c))"
  by pat_completeness auto
termination
  by (relation "measure (\<lambda>(e, tn, u, attempts, c). maxAttempts - attempts)") auto

declare tracking_loop.simps [simp del]

definition fallback_tracking_number :: "env \<Rightarrow> nat \<Rightarrow> string" where
  "fallback_tracking_number e k =
     (let timestamp = slice_last 8 (show_nat (date_now e));
          random = padStart 2 CHR ''0'' (show_int \<lfloor>js_times (math_random e k) 100\<rfloor>)
      in ''TRK'' @ timestamp @ random)"

definition tracking_step :: "env \<Rightarrow> conn \<Rightarrow> (error \<times> conn) + (string option \<times> conn)" where
  "tracking_step e c =
     (case tracking_loop e None False 0 c of
        Inl x \<Rightarrow> Inl x
      | Inr ((trackingNumber, isUnique, attempts), c1) \<Rightarrow>
          if \<not> isUnique then
            (let tn = fallback_tracking_number e attempts in
             case query e (select_tracking tn) c1 of
               Inl x \<Rightarrow> Inl x
             | Inr (finalCheck, c2) \<Rightarrow>
                 if length finalCheck > 0 then
                   Inl (JsError ''Failed to generate unique tracking number after multiple attempts'', c2)
                 else Inr (Some tn, c2))
          else Inr (trackingNumber, c1))"

subsection \<open>Steps 4 and 5: the order, its line items and the stock\<close>

definition new_order_row ::
  "int \<Rightarrow> int \<Rightarrow> int option \<Rightarrow> int \<Rightarrow> int \<Rightarrow> string option \<Rightarrow> order_row" where
  "new_order_row oid uid tot shippingAddressId billingAddressId trackingNumber =
     \<lparr>o_order_id = oid, o_user_id = uid, o_total_amount = tot, o_currency_id = 1,
      o_language_id = 1, o_status = Pending, o_shipping_address_id = shippingAddressId,
      o_billing_address_id = billingAddressId, o_tracking_number = trackingNumber\<rparr>"

definition insert_order ::
  "int \<Rightarrow> int option \<Rightarrow> int \<Rightarrow> int \<Rightarrow> string option \<Rightarrow> db \<Rightarrow> int \<times> db" where
  "insert_order uid tot shippingAddressId billingAddressId trackingNumber d =
     (next_order_id d,
      d\<lparr>orders := orders d @
           [new_order_row (next_order_id d) uid tot shippingAddressId billingAddressId trackingNumber],
        next_order_id := next_order_id d + 1\<rparr>)"

text \<open>
  The parameters of \<^verbatim>\<open>INSERT INTO order_items\<close>:
  \<^verbatim>\<open>item.variant_id || item.product_id\<close> and
  \<^verbatim>\<open>item.unit_price || item.price\<close>.
\<close>

definition variant_ref :: "item \<Rightarrow> int option" where
  "variant_ref it = js_or (variant_id it) (product_id it)"

definition recorded_price :: "item \<Rightarrow> int option" where
  "recorded_price it = js_or (unit_price it) (price it)"

definition new_order_item_row :: "int \<Rightarrow> int \<Rightarrow> item \<Rightarrow> order_item_row" where
  "new_order_item_row iid orderId it =
     \<lparr>oi_order_item_id = iid, oi_order_id = orderId, oi_variant_id = variant_ref it,
      oi_quantity = quantity it, oi_unit_price = recorded_price it\<rparr>"

definition insert_order_item :: "int \<Rightarrow> item \<Rightarrow> db \<Rightarrow> unit \<times> db" where
  "insert_order_item orderId it d =
     ((), d\<lparr>order_items := order_items d @ [new_order_item_row (next_order_item_id d) orderId it],
            next_order_item_id := next_order_item_id d + 1\<rparr>)"

text \<open>
  \<^verbatim>\<open>WHERE variant_id = ?\<close>: a comparison with \<^verbatim>\<open>NULL\<close> selects no row.
\<close>

definition select_variant :: "int option \<Rightarrow> db \<Rightarrow> variant_row list \<times> db" where
  "select_variant ref d = (filter (\<lambda>v. Some (pv_variant_id v) = ref) (product_variants d), d)"

definition update_stock :: "int \<Rightarrow> int option \<Rightarrow> db \<Rightarrow> unit \<times> db" where
  "update_stock qty ref d =
     ((), d\<lparr>product_variants :=
              map (\<lambda>v. if Some (pv_variant_id v) = ref
                        then v\<lparr>pv_stock_quantity := pv_stock_quantity v - qty\<rparr> else v)
                  (product_variants d)\<rparr>)"

text \<open>The loop \<^verbatim>\<open>for (const item of items)\<close>; the warning it logs has no effect.\<close>

fun item_loop :: "env \<Rightarrow> int \<Rightarrow> item list \<Rightarrow> conn \<Rightarrow> (error \<times> conn) + conn" where
  "item_loop e orderId [] c = Inr c"
| "item_loop e orderId (it # its) c =
     (case query e (insert_order_item orderId it) c of
        Inl x \<Rightarrow> Inl x
      | Inr (u, c1) \<Rightarrow>
          if truthy (variant_ref it) then
            (case query e (select_variant (variant_ref it)) c1 of
               Inl x \<Rightarrow> Inl x
             | Inr (variantCheck, c2) \<Rightarrow>
                 if length variantCheck > 0 then
                   (case query e (update_stock (quantity it) (variant_ref it)) c2 of
                      Inl x \<Rightarrow> Inl x
                    | Inr (u', c3) \<Rightarrow> item_loop e orderId its c3)
                 else item_loop e orderId its c2)
          else item_loop e orderId its c1)"

text \<open>Steps 1 to 5, between \<^verbatim>\<open>beginTransaction\<close> and \<^verbatim>\<open>commit\<close>.\<close>

definition order_tx ::
  "env \<Rightarrow> int \<Rightarrow> item list \<Rightarrow> address \<Rightarrow> address \<Rightarrow> int option \<Rightarrow> conn \<Rightarrow>
     (error \<times> conn) + (int \<times> conn)" where
  "order_tx e uid its sa ba tot c =
     (case address_step e uid sa Shipping c of
        Inl x \<Rightarrow> Inl x
      | Inr (shippingAddressId, c1) \<Rightarrow>
     (case address_step e uid ba Billing c1 of
        Inl x \<Rightarrow> Inl x
      | Inr (billingAddressId, c2) \<Rightarrow>
     (case tracking_step e c2 of
        Inl x \<Rightarrow> Inl x
      | Inr (trackingNumber, c3) \<Rightarrow>
     (case query e (insert_order uid tot shippingAddressId billingAddressId trackingNumber) c3 of
        Inl x \<Rightarrow> Inl x
      | Inr (orderId, c4) \<Rightarrow>
     (case item_loop e orderId its c4 of
        Inl x \<Rightarrow> Inl x
      | Inr c5 \<Rightarrow> Inr (orderId, c5))))))"

subsection \<open>The order is read back after the commit\<close>

definition left_join :: "'a list \<Rightarrow> ('a \<Rightarrow> 'b list) \<Rightarrow> ('a \<times> 'b option) list" where
  "left_join xs f =
     concat (map (\<lambda>x. case f x of [] \<Rightarrow> [(x, None)] | y # ys \<Rightarrow> map (\<lambda>z. (x, Some z)) (y # ys)) xs)"

definition address_of_row :: "address_row \<Rightarrow> address" where
  "address_of_row r =
     \<lparr>street = a_street r, city = a_city r, state = a_state r, country = a_country r,
      postal_code = a_postal_code r\<rparr>"

definition select_order :: "int \<Rightarrow> db \<Rightarrow> order_view list \<times> db" where
  "select_order orderId d =
     (map (\<lambda>((r, sa), ba).
             \<lparr>ov_order = r, ov_shipping = map_option address_of_row sa,
              ov_billing = map_option address_of_row ba, ov_items = []\<rparr>)
        (left_join
           (left_join (filter (\<lambda>r. o_order_id r = orderId) (orders d))
              (\<lambda>r. filter (\<lambda>a. a_address_id a = o_shipping_address_id r) (addresses d)))
           (\<lambda>(r, sa). filter (\<lambda>a. a_address_id a = o_billing_address_id r) (addresses d))),
      d)"

definition select_order_items :: "int \<Rightarrow> db \<Rightarrow> item_view list \<times> db" where
  "select_order_items orderId d =
     (map (\<lambda>((i, v), p).
             \<lparr>iv_item = i,
              iv_product_name = (case p of None \<Rightarrow> None | Some pr \<Rightarrow> p_base_name pr),
              iv_size = (case v of None \<Rightarrow> None | Some vr \<Rightarrow> pv_size vr),
              iv_color = (case v of None \<Rightarrow> None | Some vr \<Rightarrow> pv_color vr)\<rparr>)
        (left_join
           (left_join (filter (\<lambda>i. oi_order_id i = orderId) (order_items d))
              (\<lambda>i. filter (\<lambda>v. Some (pv_variant_id v) = oi_variant_id i) (product_variants d)))
           (\<lambda>(i, v). case v of None \<Rightarrow> []
                      | Some vr \<Rightarrow> filter (\<lambda>p. Some (p_product_id p) = pv_product_id vr) (products d))),
      d)"

text \<open>
  \<^verbatim>\<open>newOrders[0]\<close> is undefined when the first query returns no row; the
  assignment \<^verbatim>\<open>order.items = ...\<close> after the second query then throws.
\<close>

definition read_order :: "env \<Rightarrow> int \<Rightarrow> conn \<Rightarrow> (error \<times> conn) + (order_view \<times> conn)" where
  "read_order e orderId c =
     (case query e (select_order orderId) c of
        Inl x \<Rightarrow> Inl x
      | Inr (newOrders, c1) \<Rightarrow>
     (case query e (select_order_items orderId) c1 of
        Inl x \<Rightarrow> Inl x
      | Inr (orderItems, c2) \<Rightarrow>
     (case newOrders of
        [] \<Rightarrow> Inl (TypeError, c2)
      | order # rest \<Rightarrow> Inr (order\<lparr>ov_items := orderItems\<rparr>, c2))))"

subsection \<open>The handler of \<^verbatim>\<open>POST /\<close>\<close>

definition items_required :: response where
  "items_required =
     \<lparr>http_status = 400, success = False, message = ''Order must contain at least one item'',
      error = None, data = None\<rparr>"

definition addresses_required :: response where
  "addresses_required =
     \<lparr>http_status = 400, success = False,
      message = ''Shipping and billing addresses are required'', error = None, data = None\<rparr>"

definition user_not_found :: response where
  "user_not_found =
     \<lparr>http_status = 404, success = False, message = ''User not found'', error = None,
      data = None\<rparr>"

definition create_failed :: "error \<Rightarrow> response" where
  "create_failed x =
     \<lparr>http_status = 500, success = False, message = ''Failed to create order'',
      error = Some x, data = None\<rparr>"

definition order_created :: "order_view \<Rightarrow> response" where
  "order_created v =
     \<lparr>http_status = 201, success = True, message = ''Order created successfully'',
      error = None, data = Some v\<rparr>"

text \<open>
  The block \<^verbatim>\<open>try\<close> of the handler: steps 1 to 5, the commit, and the two queries
  that read the order back. An exception leaves it with the connection as it is then.
\<close>

definition try_block ::
  "env \<Rightarrow> int \<Rightarrow> item list \<Rightarrow> address \<Rightarrow> address \<Rightarrow> int option \<Rightarrow> session \<Rightarrow>
     (error + order_view) \<times> session" where
  "try_block e uid its sa ba tot s =
     (case order_tx e uid its sa ba tot (connection s) of
        Inl (x, c) \<Rightarrow> (Inl x, s\<lparr>connection := c\<rparr>)
      | Inr (orderId, c) \<Rightarrow>
          (let s1 = commit (s\<lparr>connection := c\<rparr>) in
           case read_order e orderId (connection s1) of
             Inl (x, c1) \<Rightarrow> (Inl x, s1\<lparr>connection := c1\<rparr>)
           | Inr (order, c1) \<Rightarrow> (Inr order, s1\<lparr>connection := c1\<rparr>)))"

text \<open>
  The handler. It answers, leaves the server with its committed tables, and releases the
  connection if it has acquired one. An exception of the block reaches the inner
  \<^verbatim>\<open>catch\<close>, which rolls back and throws it again, and then the outer one, which
  rolls back once more and answers 500 with the message of the exception. After the commit
  a rollback finds nothing to discard.
\<close>

definition post_order :: "env \<Rightarrow> db \<Rightarrow> order_request \<Rightarrow> response \<times> db \<times> conn option" where
  "post_order e d req =
     (case items req of
        ItemsAbsent \<Rightarrow> (items_required, d, None)
      | ItemsNotArray \<Rightarrow> (items_required, d, None)
      | ItemsArray its \<Rightarrow>
          if length its = 0 then (items_required, d, None)
          else
            (case shipping_address req of
               None \<Rightarrow> (addresses_required, d, None)
             | Some sa \<Rightarrow>
            (case billing_address req of
               None \<Rightarrow> (addresses_required, d, None)
             | Some ba \<Rightarrow>
            (case getUserByClerkId d (clerk_user_id req) of
               None \<Rightarrow> (user_not_found, d, None)
             | Some user \<Rightarrow>
            (case try_block e (usr_user_id user) its sa ba (total req)
                    (beginTransaction (getConnection d)) of
               (Inl x, s) \<Rightarrow>
                 (let s1 = rollback s; s2 = rollback s1
                  in (create_failed x, committed s2, Some (connection s2)))
             | (Inr order, s) \<Rightarrow> (order_created order, committed s, Some (connection s)))))))"

text \<open>What a client and later requests observe: the answer and the committed tables.\<close>

definition create_order :: "env \<Rightarrow> db \<Rightarrow> order_request \<Rightarrow> response \<times> db" where
  "create_order e d req = (case post_order e d req of (res, d', released) \<Rightarrow> (res, d'))"

subsection \<open>The handler of the self-service \<^verbatim>\<open>PATCH /:id/cancel\<close>\<close>

text \<open>
  The handler looks the user up, selects the order by key, owner and status, and updates by
  key and owner. Its statements run on the pool, outside a transaction, and are taken to
  complete.
\<close>

definition cancel_rejected :: response where
  "cancel_rejected =
     \<lparr>http_status = 404, success = False,
      message = ''Order not found, already cancelled/delivered, or cannot be cancelled'',
      error = None, data = None\<rparr>"

definition cancel_done :: response where
  "cancel_done =
     \<lparr>http_status = 200, success = True, message = ''Order cancelled successfully'',
      error = None, data = None\<rparr>"

definition cancellable :: "int \<Rightarrow> int \<Rightarrow> order_row \<Rightarrow> bool" where
  "cancellable oid uid r =
     (o_order_id r = oid \<and> o_user_id r = uid \<and> (o_status r = Pending \<or> o_status r = Processing))"

definition cancel_order :: "db \<Rightarrow> string \<Rightarrow> int \<Rightarrow> response \<times> db" where
  "cancel_order d clerkId oid =
     (case getUserByClerkId d clerkId of
        None \<Rightarrow> (user_not_found, d)
      | Some user \<Rightarrow>
          (let existingOrders = filter (cancellable oid (usr_user_id user)) (orders d) in
           if length existingOrders = 0 then (cancel_rejected, d)
           else
             (cancel_done,
              d\<lparr>orders :=
                  map (\<lambda>r. if o_order_id r = oid \<and> o_user_id r = usr_user_id user
                            then r\<lparr>o_status := Cancelled\<rparr> else r)
                      (orders d)\<rparr>)))"

subsection \<open>Notions used in the statements\<close>

text \<open>The pattern \<^verbatim>\<open>TRK\d{6,10}\<close>.\<close>

definition is_digit :: "char \<Rightarrow> bool" where
  "is_digit ch = (ch \<in> set ''0123456789'')"

definition matches_trk :: "string \<Rightarrow> bool" where
  "matches_trk s =
     (take 3 s = ''TRK'' \<and> 6 \<le> length (drop 3 s) \<and> length (drop 3 s) \<le> 10
      \<and> list_all is_digit (drop 3 s))"

text \<open>The candidate of attempt \<open>k\<close>, and whether an order already carries a tracking number.\<close>

definition candidate :: "env \<Rightarrow> nat \<Rightarrow> string" where
  "candidate e k = generateProfessionalTrackingNumber (math_random e k)"

definition collides :: "db \<Rightarrow> string \<Rightarrow> bool" where
  "collides d s = (fst (select_tracking s d) \<noteq> [])"

text \<open>
  What the environment is taken to provide: \<^verbatim>\<open>Math.random()\<close> returns a double
  in \<open>[0, 1)\<close>, and the clock is at least 10000000 milliseconds past the epoch, so
  that \<^verbatim>\<open>Date.now()\<close> has eight digits or more. A real number is a double when
  rounding leaves it as it is.
\<close>

definition is_double :: "real \<Rightarrow> bool" where
  "is_double x = (round_double x = x)"

definition env_ok :: "env \<Rightarrow> bool" where
  "env_ok e =
     ((\<forall>k. is_double (math_random e k) \<and> 0 \<le> math_random e k \<and> math_random e k < 1)
      \<and> 10000000 \<le> date_now e)"

definition no_faults :: "env \<Rightarrow> bool" where
  "no_faults e = (\<forall>n. \<not> stmt_fails e n)"

text \<open>
  The line items that the loop inserts for a list of items, the first with the key \<open>n\<close>;
  and the quantity that a list of items orders of the variant \<open>vid\<close>: the items whose
  reference is truthy and equal to \<open>vid\<close>.
\<close>

fun item_rows :: "int \<Rightarrow> int \<Rightarrow> item list \<Rightarrow> order_item_row list" where
  "item_rows n orderId [] = []"
| "item_rows n orderId (it # its) = new_order_item_row n orderId it # item_rows (n + 1) orderId its"

definition ordered_quantity :: "item list \<Rightarrow> int \<Rightarrow> int" where
  "ordered_quantity its vid =
     sum_list (map quantity (filter (\<lambda>it. truthy (variant_ref it) \<and> variant_ref it = Some vid) its))"

text \<open>
  The sum of \<open>quantity \<times> unit_price\<close>, absent as soon as one price is, over the line
  items of an order and over the items of a request.
\<close>

fun sum_opt :: "int option list \<Rightarrow> int option" where
  "sum_opt [] = Some 0"
| "sum_opt (x # xs) =
     (case x of None \<Rightarrow> None
      | Some a \<Rightarrow> (case sum_opt xs of None \<Rightarrow> None | Some b \<Rightarrow> Some (a + b)))"

definition line_items_of :: "db \<Rightarrow> int \<Rightarrow> order_item_row list" where
  "line_items_of d oid = filter (\<lambda>i. oi_order_id i = oid) (order_items d)"

definition line_total :: "order_item_row \<Rightarrow> int option" where
  "line_total i = map_option (\<lambda>p. oi_quantity i * p) (oi_unit_price i)"

definition items_total :: "db \<Rightarrow> int \<Rightarrow> int option" where
  "items_total d oid = sum_opt (map line_total (line_items_of d oid))"

definition request_total :: "item list \<Rightarrow> int option" where
  "request_total its = sum_opt (map (\<lambda>it. map_option (\<lambda>p. quantity it * p) (recorded_price it)) its)"

definition order_with_id :: "db \<Rightarrow> int \<Rightarrow> order_row option" where
  "order_with_id d oid = find (\<lambda>r. o_order_id r = oid) (orders d)"

text \<open>
  Integrity of the keys: the keys of the rows are below the counters that generate them, a
  line item refers to an order whose key has been generated, and the keys of variants and
  of products are unique.
\<close>

definition keys_ok :: "db \<Rightarrow> bool" where
  "keys_ok d =
     (list_all (\<lambda>r. a_address_id r < next_address_id d) (addresses d)
      \<and> list_all (\<lambda>r. o_order_id r < next_order_id d) (orders d)
      \<and> list_all (\<lambda>i. oi_order_id i < next_order_id d) (order_items d)
      \<and> distinct (map pv_variant_id (product_variants d))
      \<and> distinct (map p_product_id (products d)))"

text \<open>The error thrown when the allocation of a tracking number is exhausted.\<close>

definition tracking_failed :: error where
  "tracking_failed = JsError ''Failed to generate unique tracking number after multiple attempts''"

text \<open>
  The effect of the steps when no statement throws: an address step returns the key of the
  first matching row or inserts a row, the loop over the items appends the line items and
  decrements the stock, and the committed state of an order with the tracking number
  \<open>tn\<close> is their composition.
\<close>

definition dedup_address :: "int \<Rightarrow> address \<Rightarrow> address_role \<Rightarrow> db \<Rightarrow> int \<times> db" where
  "dedup_address uid a role d =
     (case filter (address_matches uid a) (addresses d) of
        r # rs \<Rightarrow> (a_address_id r, d)
      | [] \<Rightarrow> insert_address uid a role d)"

definition after_items :: "int \<Rightarrow> item list \<Rightarrow> db \<Rightarrow> db" where
  "after_items oid its d =
     d\<lparr>order_items := order_items d @ item_rows (next_order_item_id d) oid its,
       product_variants :=
         map (\<lambda>v. v\<lparr>pv_stock_quantity := pv_stock_quantity v - ordered_quantity its (pv_variant_id v)\<rparr>)
             (product_variants d),
       next_order_item_id := next_order_item_id d + int (length its)\<rparr>"

definition committed_state ::
  "int \<Rightarrow> item list \<Rightarrow> address \<Rightarrow> address \<Rightarrow> int option \<Rightarrow> string option \<Rightarrow> db \<Rightarrow> db" where
  "committed_state uid its sa ba tot tn d =
     (case dedup_address uid sa Shipping d of (sid, d1) \<Rightarrow>
      case dedup_address uid ba Billing d1 of (bid, d2) \<Rightarrow>
      case insert_order uid tot sid bid tn d2 of (oid, d3) \<Rightarrow> after_items oid its d3)"







text \<open>The stored total of an order agrees with the sum over its line items.\<close>

definition total_consistent :: "db \<Rightarrow> int \<Rightarrow> bool" where
  "total_consistent d oid = (map_option o_total_amount (order_with_id d oid) = Some (items_total d oid))"

subsection \<open>A sample state\<close>

text \<open>
  A store with two users, one address, a pending and a shipped order of the first user, and
  two variants of one product; the concrete runs below start from it.
\<close>

definition sample_address :: address where
  "sample_address =
     \<lparr>street = ''1 Main St'', city = ''Dhaka'', state = ''DH'', country = ''BD'',
      postal_code = ''1207''\<rparr>"

definition sample_db :: db where
  "sample_db =
     \<lparr>users = [\<lparr>usr_user_id = 1, usr_clerk_id = ''clerk_1''\<rparr>,
               \<lparr>usr_user_id = 2, usr_clerk_id = ''clerk_2''\<rparr>],
      addresses =
        [\<lparr>a_address_id = 1, a_user_id = 1, a_street = ''1 Main St'', a_city = ''Dhaka'',
          a_state = ''DH'', a_country = ''BD'', a_postal_code = ''1207'',
          a_is_shipping = Some True, a_is_billing = None\<rparr>],
      orders =
        [\<lparr>o_order_id = 1, o_user_id = 1, o_total_amount = Some 20, o_currency_id = 1,
          o_language_id = 1, o_status = Pending, o_shipping_address_id = 1,
          o_billing_address_id = 1, o_tracking_number = Some ''TRK100000''\<rparr>,
         \<lparr>o_order_id = 2, o_user_id = 1, o_total_amount = Some 5, o_currency_id = 1,
          o_language_id = 1, o_status = Shipped, o_shipping_address_id = 1,
          o_billing_address_id = 1, o_tracking_number = Some ''TRK0000000000''\<rparr>],
      order_items =
        [\<lparr>oi_order_item_id = 1, oi_order_id = 1, oi_variant_id = Some 5, oi_quantity = 2,
          oi_unit_price = Some 10\<rparr>,
         \<lparr>oi_order_item_id = 2, oi_order_id = 2, oi_variant_id = Some 6, oi_quantity = 1,
          oi_unit_price = Some 5\<rparr>],
      product_variants =
        [\<lparr>pv_variant_id = 5, pv_product_id = Some 2, pv_stock_quantity = 7,
          pv_size = Some ''M'', pv_color = Some ''red''\<rparr>,
         \<lparr>pv_variant_id = 6, pv_product_id = Some 2, pv_stock_quantity = 1,
          pv_size = Some ''L'', pv_color = Some ''red''\<rparr>],
      products = [\<lparr>p_product_id = 2, p_base_name = Some ''Shirt''\<rparr>],
      next_address_id = 2, next_order_id = 3, next_order_item_id = 3\<rparr>"

text \<open>
  In \<open>sample_env\<close> the first candidate is \<^verbatim>\<open>TRK100000\<close>, which the pending order
  carries, and the second is \<^verbatim>\<open>TRK50050000\<close>. In \<open>colliding_env\<close> every
  candidate is \<^verbatim>\<open>TRK100000\<close> and the fallback is \<^verbatim>\<open>TRK0000000000\<close>,
  which the shipped order carries. In \<open>failing_env\<close> statement 7 throws.
\<close>

definition sample_env :: env where
  "sample_env =
     \<lparr>math_random = (\<lambda>k. if k = 0 then 0 else 1 / 2), date_now = 1700000000000,
      stmt_fails = (\<lambda>n. False)\<rparr>"

definition colliding_env :: env where
  "colliding_env =
     \<lparr>math_random = (\<lambda>k. 0), date_now = 1700000000000, stmt_fails = (\<lambda>n. False)\<rparr>"

definition failing_env :: env where
  "failing_env =
     \<lparr>math_random = (\<lambda>k. if k = 0 then 0 else 1 / 2), date_now = 1700000000000,
      stmt_fails = (\<lambda>n. n = 7)\<rparr>"

definition sample_item :: item where
  "sample_item =
     \<lparr>variant_id = Some 5, product_id = None, quantity = 2, unit_price = Some 10, price = None\<rparr>"

definition sample_request :: order_request where
  "sample_request =
     \<lparr>clerk_user_id = ''clerk_1'', items = ItemsArray [sample_item],
      shipping_address = Some sample_address, billing_address = Some sample_address,
      total = Some 20\<rparr>"

text \<open>
  Three more items: one whose two references are falsy, one that orders more than the stock
  of variant 6 and names its price \<^verbatim>\<open>price\<close>, and one whose variant does not exist.
\<close>

definition zero_ref_item :: item where
  "zero_ref_item =
     \<lparr>variant_id = None, product_id = Some 0, quantity = 1, unit_price = Some 0, price = Some 5\<rparr>"

definition oversell_item :: item where
  "oversell_item =
     \<lparr>variant_id = None, product_id = Some 6, quantity = 2, unit_price = None, price = Some 5\<rparr>"

definition missing_variant_item :: item where
  "missing_variant_item =
     \<lparr>variant_id = Some 99, product_id = None, quantity = 4, unit_price = Some 3, price = None\<rparr>"

text \<open>An item given away: its unit price is 0 and it has no field \<^verbatim>\<open>price\<close>.\<close>

definition free_item :: item where
  "free_item =
     \<lparr>variant_id = Some 5, product_id = None, quantity = 1, unit_price = Some 0, price = None\<rparr>"

text \<open>A request with the four items, a billing address that is not on file and a total of 999.\<close>

definition mixed_items :: "item list" where
  "mixed_items = [sample_item, oversell_item, missing_variant_item, zero_ref_item]"

definition mixed_request :: order_request where
  "mixed_request =
     \<lparr>clerk_user_id = ''clerk_1'', items = ItemsArray mixed_items,
      shipping_address = Some sample_address,
      billing_address = Some (sample_address\<lparr>postal_code := ''1212''\<rparr>),
      total = Some 999\<rparr>"

text \<open>The sample address with another postal code.\<close>

definition moved_address :: address where
  "moved_address = sample_address\<lparr>postal_code := ''1212''\<rparr>"


text \<open>
  An environment whose \<^verbatim>\<open>Math.random()\<close> returns the double nearest to 0.7. Its
  exact product with 99900000 is just below 69930000, and the rounded one is 69930000.
\<close>

definition rounding_env :: env where
  "rounding_env =
     \<lparr>math_random = (\<lambda>k. 3152519739159347 / 4503599627370496), date_now = 1700000000000,
      stmt_fails = (\<lambda>n. False)\<rparr>"

section \<open>Facts about the steps\<close>

lemma query_Inr:
  "query e f c = Inr (r, c') \<Longrightarrow>
   \<not> stmt_fails e (stmts c) \<and> r = fst (f (work c)) \<and> work c' = snd (f (work c)) \<and> stmts c' = Suc (stmts c)"
  by (auto simp: query_def split: if_splits prod.splits)

lemma query_Inl:
  "query e f c = Inl (x, cf) \<Longrightarrow> x = DbError (stmts c) \<and> stmt_fails e (stmts c) \<and> cf = c"
  by (auto simp: query_def split: if_splits prod.splits)

lemma query_no_fault:
  "\<not> stmt_fails e (stmts c) \<Longrightarrow>
   query e f c = Inr (fst (f (work c)), \<lparr>work = snd (f (work c)), stmts = Suc (stmts c)\<rparr>)"
  by (simp add: query_def split: prod.splits)

lemma address_step_Inr:
  assumes "address_step e uid a role c = Inr (aid, c')"
  shows "(case filter (address_matches uid a) (addresses (work c)) of
            r # rs \<Rightarrow> aid = a_address_id r \<and> work c' = work c \<and> stmts c' = stmts c + 1
          | [] \<Rightarrow> aid = next_address_id (work c)
                 \<and> work c' = (work c)\<lparr>addresses := addresses (work c) @ [new_address_row aid uid a role],
                                       next_address_id := next_address_id (work c) + 1\<rparr>
                 \<and> stmts c' = stmts c + 2)"
  using assms
  by (auto simp: address_step_def select_address_def insert_address_def
           split: sum.splits list.splits prod.splits dest!: query_Inr)

lemma address_step_Inl:
  "address_step e uid a role c = Inl (x, cf) \<Longrightarrow> \<exists>n. x = DbError n \<and> stmt_fails e n"
  by (auto simp: address_step_def split: sum.splits list.splits prod.splits dest: query_Inl)

lemma address_step_frame:
  assumes "address_step e uid a role c = Inr (aid, c')"
  shows "users (work c') = users (work c) \<and> orders (work c') = orders (work c)
         \<and> order_items (work c') = order_items (work c)
         \<and> product_variants (work c') = product_variants (work c)
         \<and> products (work c') = products (work c)
         \<and> next_order_id (work c') = next_order_id (work c)
         \<and> next_order_item_id (work c') = next_order_item_id (work c)
         \<and> (\<exists>new. addresses (work c') = addresses (work c) @ new)"
  using address_step_Inr[OF assms] by (auto split: list.splits)

lemma ordered_quantity_Cons:
  "ordered_quantity (it # its) vid =
     (if truthy (variant_ref it) \<and> variant_ref it = Some vid then quantity it else 0)
     + ordered_quantity its vid"
  by (auto simp: ordered_quantity_def)

lemma ordered_quantity_Nil: "ordered_quantity [] vid = 0"
  by (simp add: ordered_quantity_def)

lemma after_items_Nil: "after_items oid [] d = d"
  by (simp add: after_items_def ordered_quantity_Nil)

lemma item_loop_Inr:
  "item_loop e oid its c = Inr c' \<Longrightarrow> work c' = after_items oid its (work c)"
proof (induction its arbitrary: c)
  case Nil
  then show ?case by (simp add: after_items_Nil)
next
  case (Cons it its)
  from Cons.prems obtain u c1 where q1: "query e (insert_order_item oid it) c = Inr (u, c1)"
    by (auto split: sum.splits)
  define d1 where "d1 = snd (insert_order_item oid it (work c))"
  have w1: "work c1 = d1" using query_Inr[OF q1] by (simp add: d1_def)
  show ?case
  proof (cases "truthy (variant_ref it)")
    case False
    with Cons.prems q1 have "item_loop e oid its c1 = Inr c'" by simp
    from Cons.IH[OF this] w1 have "work c' = after_items oid its d1" by simp
    also have "\<dots> = after_items oid (it # its) (work c)"
      using False
      by (simp add: after_items_def d1_def insert_order_item_def ordered_quantity_Cons)
    finally show ?thesis .
  next
    case True
    with Cons.prems q1 obtain vc c2 where q2: "query e (select_variant (variant_ref it)) c1 = Inr (vc, c2)"
      by (auto split: sum.splits)
    have w2: "work c2 = d1" and vc: "vc = filter (\<lambda>v. Some (pv_variant_id v) = variant_ref it) (product_variants d1)"
      using query_Inr[OF q2] w1 by (simp_all add: select_variant_def)
    show ?thesis
    proof (cases "length vc > 0")
      case False
      with Cons.prems q1 q2 True have "item_loop e oid its c2 = Inr c'" by simp
      from Cons.IH[OF this] w2 have "work c' = after_items oid its d1" by simp
      moreover have "\<And>v. v \<in> set (product_variants (work c)) \<Longrightarrow> variant_ref it \<noteq> Some (pv_variant_id v)"
        using False vc by (auto simp: d1_def insert_order_item_def filter_empty_conv)
      then have "map (\<lambda>v. v\<lparr>pv_stock_quantity := pv_stock_quantity v - ordered_quantity its (pv_variant_id v)\<rparr>)
                   (product_variants (work c))
                 = map (\<lambda>v. v\<lparr>pv_stock_quantity := pv_stock_quantity v - ordered_quantity (it # its) (pv_variant_id v)\<rparr>)
                   (product_variants (work c))"
        by (intro map_cong) (auto simp: ordered_quantity_Cons)
      ultimately show ?thesis
        by (simp add: after_items_def d1_def insert_order_item_def)
    next
      case found: True
      with Cons.prems q1 q2 True obtain u' c3 where
        q3: "query e (update_stock (quantity it) (variant_ref it)) c2 = Inr (u', c3)"
        and rest: "item_loop e oid its c3 = Inr c'"
        by (auto split: sum.splits)
      define d3 where "d3 = snd (update_stock (quantity it) (variant_ref it) d1)"
      have w3: "work c3 = d3" using query_Inr[OF q3] w2 by (simp add: d3_def)
      from Cons.IH[OF rest] w3 have "work c' = after_items oid its d3" by simp
      also have "\<dots> = after_items oid (it # its) (work c)"
        using True
        by (simp add: after_items_def d3_def d1_def update_stock_def insert_order_item_def
              ordered_quantity_Cons o_def cong: if_cong)
      finally show ?thesis .
    qed
  qed
qed

lemma digit_char_is_digit: "n < 10 \<Longrightarrow> is_digit (digit_char n)"
  unfolding is_digit_def digit_char_def by (rule nth_mem) simp

lemma show_nat_digits: "list_all is_digit (show_nat n)"
proof (induction n rule: show_nat.induct)
  case (1 n)
  show ?case
  proof (cases "n < 10")
    case True
    then show ?thesis by (subst show_nat.simps) (simp add: digit_char_is_digit)
  next
    case False
    with 1 show ?thesis by (subst show_nat.simps) (simp add: digit_char_is_digit)
  qed
qed

lemma show_nat_nonempty: "0 < length (show_nat n)"
  by (subst show_nat.simps) simp

lemma length_show_nat_upper: "n < 10 ^ k \<Longrightarrow> 0 < k \<Longrightarrow> length (show_nat n) \<le> k"
proof (induction k arbitrary: n)
  case 0
  then show ?case by simp
next
  case (Suc k)
  show ?case
  proof (cases "n < 10")
    case True
    then show ?thesis by (subst show_nat.simps) simp
  next
    case False
    with Suc.prems have k: "0 < k" by (cases k) auto
    from Suc.prems have "n div 10 < 10 ^ k" by (simp add: less_mult_imp_div_less mult.commute)
    from Suc.IH[OF this k] False show ?thesis by (subst show_nat.simps) simp
  qed
qed

lemma length_show_nat_lower: "10 ^ k \<le> n \<Longrightarrow> k < length (show_nat n)"
proof (induction k arbitrary: n)
  case 0
  show ?case using show_nat_nonempty[of n] by simp
next
  case (Suc k)
  have "(10::nat) \<le> 10 * 10 ^ k" by simp
  also have "\<dots> \<le> n" using Suc.prems by simp
  finally have big: "\<not> n < 10" by simp
  from Suc.prems have "10 ^ k \<le> n div 10" by (simp add: less_eq_div_iff_mult_less_eq mult.commute)
  from Suc.IH[OF this] big show ?case by (subst show_nat.simps) simp
qed

lemma pow2_less_cancel: "(2::real) powi a < 2 powi b \<Longrightarrow> a < b"
  using power_int_increasing [of b a "2::real"] by (cases "a < b") auto

lemma pow2_le_cancel: "(2::real) powi a \<le> 2 powi b \<Longrightarrow> a \<le> b"
  using power_int_strict_increasing [of b a "2::real"] by (cases "a \<le> b") auto

lemma pow2_half: "(2::real) powi (n - 1) = 2 powi n / 2"
  by (simp add: power_int_diff)

lemma pow2_double: "(2::real) powi (n + 1) = 2 powi n * 2"
  by (simp add: power_int_add)

lemma binade_bounds:
  "0 < x \<Longrightarrow> 2 powi binade x \<le> x \<and> x < 2 powi (binade x + 1)"
proof (induction x rule: binade.induct)
  case (1 x)
  consider "x < 1" | "2 \<le> x" | "1 \<le> x" "x < 2" by linarith
  thus ?case
  proof cases
    case 1
    have b: "binade x = binade (2 * x) - 1"
      using 1 \<open>0 < x\<close> by (simp add: binade.simps [of x])
    have "2 powi binade (2 * x) \<le> 2 * x \<and> 2 * x < 2 powi (binade (2 * x) + 1)"
      using "1.IH"(1) 1 \<open>0 < x\<close> by simp
    thus ?thesis unfolding b by (simp add: pow2_half pow2_double)
  next
    case 2
    have b: "binade x = binade (x / 2) + 1"
      using 2 by (simp add: binade.simps [of x])
    have "2 powi binade (x / 2) \<le> x / 2 \<and> x / 2 < 2 powi (binade (x / 2) + 1)"
      using "1.IH"(2) 2 by simp
    thus ?thesis
      unfolding b
      using pow2_double [of "binade (x / 2)"] pow2_double [of "binade (x / 2) + 1"]
      by linarith
  next
    case 3
    have b: "binade x = 0"
      using 3 by (simp add: binade.simps [of x])
    show ?thesis unfolding b using 3 by simp
  qed
qed

lemma binade_eq:
  assumes "2 powi k \<le> x" "x < 2 powi (k + 1)"
  shows "binade x = k"
proof -
  have "0 < (2::real) powi k" by simp
  hence x: "0 < x" using assms(1) by linarith
  note b = binade_bounds [OF x]
  have "(2::real) powi binade x < 2 powi (k + 1)" using b assms by linarith
  hence 1: "binade x < k + 1" by (rule pow2_less_cancel)
  have "(2::real) powi k < 2 powi (binade x + 1)" using b assms by linarith
  hence 2: "k < binade x + 1" by (rule pow2_less_cancel)
  show ?thesis using 1 2 by linarith
qed

lemma ulp_pos: "0 < ulp x"
  by (simp add: ulp_def)

lemma round_even_nonneg: "0 \<le> y \<Longrightarrow> 0 \<le> round_even y"
  by (auto simp: round_even_def Let_def)

lemma round_even_le: "y \<le> of_int K \<Longrightarrow> round_even y \<le> K"
  unfolding round_even_def Let_def by (auto; linarith)

lemma round_even_less: "y + 1 / 2 < of_int K \<Longrightarrow> round_even y < K"
  unfolding round_even_def Let_def by (auto; linarith)

lemma round_even_of_int: "round_even (of_int k) = k"
  by (simp add: round_even_def)

lemma round_double_pos:
  "0 < x \<Longrightarrow> round_double x = of_int (round_even (x / ulp x)) * ulp x"
  by (simp add: round_double_def)

lemma round_double_nonneg: "0 \<le> x \<Longrightarrow> 0 \<le> round_double x"
proof (cases "x = 0")
  case True thus ?thesis by (simp add: round_double_def)
next
  case False
  assume "0 \<le> x"
  hence x: "0 < x" using False by simp
  have "0 \<le> x / ulp x" using x ulp_pos [of x] by simp
  hence "0 \<le> round_even (x / ulp x)" by (rule round_even_nonneg)
  thus ?thesis unfolding round_double_pos [OF x] using ulp_pos [of x] by simp
qed

lemma round_double_le_pow2:
  assumes x: "0 < x" and le: "x \<le> 2 powi m" and m: "- 1022 \<le> m"
  shows "round_double x \<le> 2 powi m"
proof -
  define k where "k = max (binade x) (- 1022) - 52"
  have u: "ulp x = 2 powi k" by (simp add: ulp_def k_def)
  have "(2::real) powi binade x \<le> 2 powi m" using binade_bounds [OF x] le by linarith
  hence "binade x \<le> m" by (rule pow2_le_cancel)
  hence mk: "0 \<le> m - k" using m by (simp add: k_def)
  have split: "(2::real) powi m = 2 powi (m - k) * 2 powi k"
    using power_int_add [of "2::real" "m - k" k] by simp
  have int: "(2::real) powi (m - k) = of_int (2 ^ nat (m - k))"
    using mk by (simp add: power_int_def)
  have "x / 2 powi k \<le> 2 powi (m - k)"
    using le split by (simp add: field_simps)
  hence "round_even (x / 2 powi k) \<le> 2 ^ nat (m - k)"
    unfolding int by (rule round_even_le)
  hence "real_of_int (round_even (x / 2 powi k)) \<le> 2 powi (m - k)"
    unfolding int by linarith
  hence "real_of_int (round_even (x / 2 powi k)) * 2 powi k \<le> 2 powi (m - k) * 2 powi k"
    by (simp add: mult_right_mono)
  thus ?thesis unfolding round_double_pos [OF x] u split .
qed

lemma round_double_in_binade:
  assumes "2 powi k \<le> x" "x < 2 powi (k + 1)" "- 1022 \<le> k"
  shows "round_double x = of_int (round_even (x / 2 powi (k - 52))) * 2 powi (k - 52)"
proof -
  have "0 < (2::real) powi k" by simp
  hence x: "0 < x" using assms(1) by linarith
  have "ulp x = 2 powi (k - 52)"
    using binade_eq [OF assms(1,2)] assms(3) by (simp add: ulp_def)
  thus ?thesis by (simp add: round_double_pos [OF x])
qed

lemma round_double_product_less:
  assumes r: "0 \<le> r" "r \<le> 1 - 1 / 2 ^ 53"
    and N: "2 powi k < N" "N < 2 powi (k + 1)" "- 1022 \<le> k"
    and M: "N = of_int M * 2 powi (k - 52)"
  shows "0 \<le> round_double (r * N) \<and> round_double (r * N) < N"
proof
  have N0: "0 < N" using N(1) zero_less_power_int [of "2::real" k] by linarith
  show "0 \<le> round_double (r * N)" using r N0 by (intro round_double_nonneg) simp
  have rN: "r * N \<le> N - N / 2 ^ 53"
  proof -
    have "r * N \<le> (1 - 1 / 2 ^ 53) * N" using r N0 by (intro mult_right_mono) simp_all
    thus ?thesis by (simp add: algebra_simps)
  qed
  consider "r * N = 0" | "0 < r * N" "r * N \<le> 2 powi k" | "2 powi k < r * N"
    using r N0 by (cases "r * N = 0"; cases "r * N \<le> 2 powi k") (auto simp: less_le)
  thus "round_double (r * N) < N"
  proof cases
    case 1 thus ?thesis using N0 by (simp add: round_double_def)
  next
    case 2
    have "round_double (r * N) \<le> 2 powi k" using 2 N(3) by (intro round_double_le_pow2)
    thus ?thesis using N(1) by linarith
  next
    case 3
    define u :: real where "u = 2 powi (k - 52)"
    have u: "0 < u" by (simp add: u_def)
    have lt: "r * N < 2 powi (k + 1)" using rN N(2) N0 by (smt (verit) divide_pos_pos zero_less_power)
    have rd: "round_double (r * N) = of_int (round_even (r * N / u)) * u"
      unfolding u_def using 3 lt N(3) by (intro round_double_in_binade) simp_all
    have "(2::real) powi (k - 52 + 53) = 2 powi (k - 52) * 2 powi 53"
      by (rule power_int_add) simp
    moreover have "k - 52 + 53 = k + 1" by simp
    ultimately have uk: "u * 2 ^ 53 = 2 powi (k + 1)" by (simp add: u_def)
    have "1 / 2 < N / (2 powi k * 2)" using N(1) by (simp add: field_simps)
    hence "1 / 2 < N / 2 powi (k + 1)" by (simp only: pow2_double)
    hence "1 / 2 < N / 2 ^ 53 / u" unfolding uk [symmetric] by (simp add: field_simps)
    moreover have "r * N / u \<le> N / u - N / 2 ^ 53 / u"
    proof -
      have "r * N / u \<le> (N - N / 2 ^ 53) / u"
        using rN u by (intro divide_right_mono) simp_all
      thus ?thesis by (simp only: diff_divide_distrib)
    qed
    moreover have "N / u = of_int M" using M u by (simp add: u_def)
    ultimately have "r * N / u + 1 / 2 < of_int M" by linarith
    hence "round_even (r * N / u) < M" by (rule round_even_less)
    hence "real_of_int (round_even (r * N / u)) < of_int M" by linarith
    hence "real_of_int (round_even (r * N / u)) * u < of_int M * u" using u by simp
    thus ?thesis unfolding rd using M by (simp add: u_def)
  qed
qed

lemma double_below_one:
  assumes d: "is_double r" and r: "0 \<le> r" "r < 1"
  shows "r \<le> 1 - 1 / 2 ^ 53"
proof (cases "r < 1 / 2")
  case True
  have "(1::real) / 2 ^ 53 \<le> 1 / 2" by simp
  thus ?thesis using True by linarith
next
  case False
  have "round_double r = of_int (round_even (r / 2 powi (- 1 - 52))) * 2 powi (- 1 - 52)"
    using False r by (intro round_double_in_binade) simp_all
  hence "r = of_int (round_even (r * 2 ^ 53)) / 2 ^ 53"
    using d by (simp add: is_double_def power_int_minus field_simps)
  then obtain j :: int where j: "r = of_int j / 2 ^ 53" ..
  have "of_int j < (2::real) ^ 53" using r(2) j by (simp add: field_simps)
  hence "of_int j < (of_int (2 ^ 53) :: real)" by simp
  hence "j < 2 ^ 53" by (simp only: of_int_less_iff)
  hence "j \<le> 2 ^ 53 - 1" by simp
  hence "(of_int j :: real) \<le> of_int (2 ^ 53 - 1)" by (simp only: of_int_le_iff)
  thus ?thesis unfolding j by (simp add: field_simps)
qed

lemma random_digits_range:
  assumes "is_double r" "0 \<le> r" "r < 1"
  shows "0 \<le> \<lfloor>js_times r 99900000\<rfloor> \<and> \<lfloor>js_times r 99900000\<rfloor> \<le> 99899999"
proof -
  have "0 \<le> round_double (r * 99900000) \<and> round_double (r * 99900000) < 99900000"
    using assms(2) double_below_one [OF assms]
    by (rule round_double_product_less [where k = 26 and M = "99900000 * 2 ^ 26"]) simp_all
  thus ?thesis by (simp add: js_times_def floor_less_iff le_floor_iff)
qed

lemma random_suffix_range:
  assumes "is_double r" "0 \<le> r" "r < 1"
  shows "0 \<le> \<lfloor>js_times r 100\<rfloor> \<and> \<lfloor>js_times r 100\<rfloor> \<le> 99"
proof -
  have "0 \<le> round_double (r * 100) \<and> round_double (r * 100) < 100"
    using assms(2) double_below_one [OF assms]
    by (rule round_double_product_less [where k = 6 and M = "100 * 2 ^ 46"]) simp_all
  thus ?thesis by (simp add: js_times_def floor_less_iff le_floor_iff)
qed

lemma candidate_format:
  assumes "is_double r" "0 \<le> r" "r < 1"
  shows "\<exists>n. generateProfessionalTrackingNumber r = ''TRK'' @ show_nat n
             \<and> 100000 \<le> n \<and> n \<le> 99999999"
proof -
  define m where "m = \<lfloor>js_times r 99900000\<rfloor>"
  have m0: "0 \<le> m" using random_digits_range[OF assms] by (simp add: m_def)
  have m1: "m < 99900000" using random_digits_range[OF assms] by (simp add: m_def)
  have "generateProfessionalTrackingNumber r = ''TRK'' @ show_int (m + 100000)"
    by (simp add: generateProfessionalTrackingNumber_def m_def Let_def)
  moreover have "show_int (m + 100000) = show_nat (nat (m + 100000))"
    using m0 by (simp add: show_int_def)
  ultimately have "generateProfessionalTrackingNumber r = ''TRK'' @ show_nat (nat (m + 100000))"
    by simp
  moreover have "100000 \<le> nat (m + 100000)" "nat (m + 100000) \<le> 99999999"
    using m0 m1 by auto
  ultimately show ?thesis by blast
qed

lemma matches_trk_digits:
  assumes "list_all is_digit ds" "6 \<le> length ds" "length ds \<le> 10"
  shows "matches_trk (''TRK'' @ ds)"
  using assms by (simp add: matches_trk_def)

lemma candidate_matches:
  assumes "is_double r" "0 \<le> r" "r < 1"
  shows "matches_trk (generateProfessionalTrackingNumber r)
         \<and> 9 \<le> length (generateProfessionalTrackingNumber r)
         \<and> length (generateProfessionalTrackingNumber r) \<le> 11"
proof -
  from candidate_format[OF assms] obtain n where
    g: "generateProfessionalTrackingNumber r = ''TRK'' @ show_nat n"
    and lo: "100000 \<le> n" and hi: "n \<le> 99999999" by blast
  have "10 ^ 5 \<le> n" using lo by simp
  from length_show_nat_lower[OF this] have l1: "6 \<le> length (show_nat n)" by simp
  have "n < 10 ^ 8" using hi by simp
  from length_show_nat_upper[OF this] have l2: "length (show_nat n) \<le> 8" by simp
  from l1 l2 show ?thesis
    unfolding g using matches_trk_digits[OF show_nat_digits, of n] by simp
qed

lemma list_all_drop: "list_all P xs \<Longrightarrow> list_all P (drop n xs)"
  by (auto simp: list_all_iff dest: in_set_dropD)

lemma fallback_format:
  assumes "env_ok e"
  shows "\<exists>ts rs. fallback_tracking_number e k = ''TRK'' @ ts @ rs
           \<and> ts = slice_last 8 (show_nat (date_now e)) \<and> length ts = 8 \<and> list_all is_digit ts
           \<and> length rs = 2 \<and> list_all is_digit rs"
proof -
  define ts where "ts = slice_last 8 (show_nat (date_now e))"
  define m where "m = \<lfloor>js_times (math_random e k) 100\<rfloor>"
  define rs where "rs = padStart 2 CHR ''0'' (show_int m)"
  have "10 ^ 7 \<le> date_now e" using assms by (simp add: env_ok_def)
  from length_show_nat_lower[OF this] have "length ts = 8"
    by (simp add: ts_def slice_last_def)
  moreover have "list_all is_digit ts"
    unfolding ts_def slice_last_def by (rule list_all_drop) (rule show_nat_digits)
  moreover have r: "is_double (math_random e k)" "0 \<le> math_random e k" "math_random e k < 1"
    using assms by (simp_all add: env_ok_def)
  have m0: "0 \<le> m" using random_suffix_range[OF r] by (simp add: m_def)
  have m1: "m < 100" using random_suffix_range[OF r] by (simp add: m_def)
  have si: "show_int m = show_nat (nat m)" using m0 by (simp add: show_int_def)
  have "nat m < 10 ^ 2" using m1 by simp
  from length_show_nat_upper[OF this] have "length (show_nat (nat m)) \<le> 2" by simp
  then have "length rs = 2" by (simp add: rs_def padStart_def si)
  moreover have "is_digit CHR ''0''" by (simp add: is_digit_def)
  then have "list_all is_digit rs"
    using show_nat_digits[of "nat m"] by (auto simp: rs_def padStart_def si list_all_iff)
  ultimately show ?thesis
    by (auto simp: fallback_tracking_number_def Let_def ts_def rs_def m_def)
qed

lemma fallback_matches:
  assumes "env_ok e"
  shows "matches_trk (fallback_tracking_number e k) \<and> length (fallback_tracking_number e k) = 13"
proof -
  from fallback_format[OF assms, of k] obtain ts rs where
    f: "fallback_tracking_number e k = ''TRK'' @ ts @ rs" and "length ts = 8" "list_all is_digit ts"
    "length rs = 2" "list_all is_digit rs" by blast
  then show ?thesis
    unfolding f using matches_trk_digits[of "ts @ rs"] by simp
qed

lemma tracking_loop_unique: "tracking_loop e tn0 True a c = Inr ((tn0, True, a), c)"
  by (simp add: tracking_loop.simps)

lemma tracking_loop_exhausted:
  "maxAttempts \<le> a \<Longrightarrow> tracking_loop e tn0 u0 a c = Inr ((tn0, u0, a), c)"
  by (simp add: tracking_loop.simps)

lemma tracking_loop_step:
  assumes "a < maxAttempts"
  shows "tracking_loop e tn0 False a c =
         (case query e (select_tracking (candidate e a)) c of
            Inl x \<Rightarrow> Inl x
          | Inr (ex, c1) \<Rightarrow> tracking_loop e (Some (candidate e a)) (length ex = 0) (Suc a) c1)"
  unfolding candidate_def using assms by (subst tracking_loop.simps) (simp add: Let_def)

lemma tracking_loop_Inr:
  "tracking_loop e tn0 False a c = Inr ((tn, u, n), c') \<Longrightarrow> a \<le> maxAttempts \<Longrightarrow>
     work c' = work c \<and> stmts c' = stmts c + (n - a) \<and> a \<le> n \<and> n \<le> maxAttempts \<and>
     (if u then a < n \<and> tn = Some (candidate e (n - 1)) \<and> \<not> collides (work c) (candidate e (n - 1))
               \<and> (\<forall>j. a \<le> j \<and> j < n - 1 \<longrightarrow> collides (work c) (candidate e j))
      else n = maxAttempts \<and> tn = (if a < n then Some (candidate e (n - 1)) else tn0)
               \<and> (\<forall>j. a \<le> j \<and> j < n \<longrightarrow> collides (work c) (candidate e j)))"
proof (induction k \<equiv> "maxAttempts - a" arbitrary: a tn0 c)
  case 0
  then have "maxAttempts \<le> a" by simp
  with 0 show ?case by (auto simp: tracking_loop_exhausted)
next
  case (Suc k)
  then have lt: "a < maxAttempts" by simp
  from Suc.prems(1) obtain ex c1 where
    q: "query e (select_tracking (candidate e a)) c = Inr (ex, c1)"
    and rec: "tracking_loop e (Some (candidate e a)) (length ex = 0) (Suc a) c1 = Inr ((tn, u, n), c')"
    by (auto simp: tracking_loop_step[OF lt] split: sum.splits)
  have w1: "work c1 = work c" and s1: "stmts c1 = Suc (stmts c)"
    and ex: "ex = fst (select_tracking (candidate e a) (work c))"
    using query_Inr[OF q] by (simp_all add: select_tracking_def)
  show ?case
  proof (cases "length ex = 0")
    case True
    with rec have "tn = Some (candidate e a)" "u" "n = Suc a" "c' = c1"
      by (simp_all add: tracking_loop_unique)
    moreover have "\<not> collides (work c) (candidate e a)"
      using True ex by (simp add: collides_def)
    ultimately show ?thesis using w1 s1 lt by auto
  next
    case False
    then have col: "collides (work c) (candidate e a)"
      using ex by (simp add: collides_def)
    from False rec have rec': "tracking_loop e (Some (candidate e a)) False (Suc a) c1 = Inr ((tn, u, n), c')"
      by simp
    have k: "k = maxAttempts - Suc a" using Suc.hyps(2) by simp
    have le: "Suc a \<le> maxAttempts" using lt by simp
    note IH = Suc.hyps(1)[OF k rec' le]
    have cover: "collides (work c) (candidate e j)"
      if "a \<le> j" "j < m" "\<forall>j. Suc a \<le> j \<and> j < m \<longrightarrow> collides (work c1) (candidate e j)" for j m
      using that col w1 by (cases "j = a") auto
    show ?thesis
    proof (cases u)
      case True
      with IH have f: "work c' = work c1" "stmts c' = stmts c1 + (n - Suc a)" "Suc a < n" "n \<le> maxAttempts"
        "tn = Some (candidate e (n - 1))" "\<not> collides (work c1) (candidate e (n - 1))"
        "\<forall>j. Suc a \<le> j \<and> j < n - 1 \<longrightarrow> collides (work c1) (candidate e j)"
        by simp_all
      then show ?thesis using True w1 s1 cover[of _ "n - 1"] by auto
    next
      case False
      with IH have f: "work c' = work c1" "stmts c' = stmts c1 + (n - Suc a)" "n = maxAttempts"
        "tn = (if Suc a < n then Some (candidate e (n - 1)) else Some (candidate e a))"
        "\<forall>j. Suc a \<le> j \<and> j < n \<longrightarrow> collides (work c1) (candidate e j)"
        by simp_all
      moreover have "Suc a < n \<or> a = n - 1" using lt f(3) by auto
      ultimately show ?thesis using False w1 s1 lt cover[of _ n] by auto
    qed
  qed
qed

lemma tracking_loop_Inl:
  "tracking_loop e tn0 u0 a c = Inl (x, cf) \<Longrightarrow> \<exists>n. x = DbError n \<and> stmt_fails e n"
proof (induction e tn0 u0 a c rule: tracking_loop.induct)
  case (1 e trackingNumber isUnique attempts c)
  show ?case
  proof (cases "\<not> isUnique \<and> attempts < maxAttempts")
    case False
    with "1.prems" show ?thesis by (simp add: tracking_loop.simps)
  next
    case True
    show ?thesis
    proof (cases "query e (select_tracking (generateProfessionalTrackingNumber (math_random e attempts))) c")
      case (Inl y)
      with True "1.prems" have "y = (x, cf)" by (subst (asm) tracking_loop.simps) (simp add: Let_def)
      with query_Inl[of e _ c x cf] Inl show ?thesis by blast
    next
      case (Inr p)
      obtain ex c1 where p: "p = (ex, c1)" by (cases p)
      from True "1.prems" Inr p
      have "tracking_loop e (Some (generateProfessionalTrackingNumber (math_random e attempts)))
              (length ex = 0) (Suc attempts) c1 = Inl (x, cf)"
        by (subst (asm) tracking_loop.simps) (simp add: Let_def)
      from "1.IH"[OF True refl Inr p[symmetric] this] show ?thesis .
    qed
  qed
qed

lemma tracking_loop_no_fault:
  assumes "no_faults e"
  shows "\<exists>r c'. tracking_loop e tn0 u0 a c = Inr (r, c')"
proof (cases "tracking_loop e tn0 u0 a c")
  case (Inl x)
  from tracking_loop_Inl[of e tn0 u0 a c "fst x" "snd x"] Inl assms show ?thesis
    by (auto simp: no_faults_def)
next
  case (Inr p)
  then show ?thesis by (cases p) auto
qed

lemma tracking_step_Inr:
  assumes "tracking_step e c = Inr (tn, c')"
  shows "work c' = work c \<and> (\<exists>s. tn = Some s \<and> \<not> collides (work c) s \<and>
     ((\<exists>k<maxAttempts. s = candidate e k \<and> (\<forall>j<k. collides (work c) (candidate e j))
          \<and> stmts c' = stmts c + k + 1)
      \<or> (s = fallback_tracking_number e maxAttempts
          \<and> (\<forall>j<maxAttempts. collides (work c) (candidate e j))
          \<and> stmts c' = stmts c + maxAttempts + 1)))"
proof -
  from assms obtain t u n c1 where l: "tracking_loop e None False 0 c = Inr ((t, u, n), c1)"
    by (auto simp: tracking_step_def split: sum.splits)
  note L = tracking_loop_Inr[OF l]
  show ?thesis
  proof (cases u)
    case True
    with assms l have "tn = t" "c' = c1" by (simp_all add: tracking_step_def)
    with True L show ?thesis
      by (auto intro!: exI[of _ "candidate e (n - 1)"] disjI1 exI[of _ "n - 1"])
  next
    case False
    with L have n: "n = maxAttempts" and w: "work c1 = work c" and s: "stmts c1 = stmts c + maxAttempts"
      and col: "\<forall>j<maxAttempts. collides (work c) (candidate e j)" by auto
    let ?f = "fallback_tracking_number e maxAttempts"
    from assms l False n obtain fc where
      q: "query e (select_tracking ?f) c1 = Inr (fc, c')" and fc: "\<not> length fc > 0" and tn: "tn = Some ?f"
      by (auto simp: tracking_step_def Let_def split: sum.splits if_splits)
    from query_Inr[OF q] fc w s have "work c' = work c" "stmts c' = stmts c + maxAttempts + 1"
      "\<not> collides (work c) ?f"
      by (simp_all add: select_tracking_def collides_def)
    with tn col show ?thesis by auto
  qed
qed

lemma tracking_step_Inl:
  assumes "tracking_step e c = Inl (x, cf)"
  shows "(\<exists>n. x = DbError n \<and> stmt_fails e n)
         \<or> (x = tracking_failed \<and> (\<forall>j<maxAttempts. collides (work c) (candidate e j))
             \<and> collides (work c) (fallback_tracking_number e maxAttempts)
             \<and> work cf = work c)"
proof (cases "tracking_loop e None False 0 c")
  case (Inl y)
  with assms have "y = (x, cf)" by (simp add: tracking_step_def)
  with tracking_loop_Inl[of e None False 0 c x cf] Inl show ?thesis by blast
next
  case (Inr p)
  obtain t u n c1 where p: "p = ((t, u, n), c1)" by (cases p) auto
  note l = Inr[unfolded p]
  note L = tracking_loop_Inr[OF l]
  from assms l have nu: "\<not> u" by (auto simp: tracking_step_def)
  with L have n: "n = maxAttempts" and w: "work c1 = work c"
    and col: "\<forall>j<maxAttempts. collides (work c) (candidate e j)" by auto
  let ?f = "fallback_tracking_number e maxAttempts"
  show ?thesis
  proof (cases "query e (select_tracking ?f) c1")
    case (Inl y)
    with assms l nu n have "y = (x, cf)" by (simp add: tracking_step_def Let_def)
    with query_Inl[of e _ c1 x cf] Inl show ?thesis by blast
  next
    case (Inr q)
    obtain fc c2 where q: "q = (fc, c2)" by (cases q)
    from assms l nu n Inr q have "length fc > 0" "x = tracking_failed" "cf = c2"
      by (auto simp: tracking_step_def Let_def tracking_failed_def split: if_splits)
    moreover from query_Inr[OF Inr[unfolded q]] w have "fc = fst (select_tracking ?f (work c))"
      "work c2 = work c"
      by (simp_all add: select_tracking_def)
    ultimately show ?thesis using col by (auto simp: collides_def)
  qed
qed

lemma tracking_step_exhausted:
  assumes "no_faults e" "\<forall>j<maxAttempts. collides (work c) (candidate e j)"
    "collides (work c) (fallback_tracking_number e maxAttempts)"
  shows "\<exists>cf. tracking_step e c = Inl (tracking_failed, cf) \<and> work cf = work c"
proof (cases "tracking_step e c")
  case (Inl x)
  from tracking_step_Inl[of e c "fst x" "snd x"] Inl assms(1) show ?thesis
    by (cases x) (auto simp: no_faults_def)
next
  case (Inr p)
  obtain tn c' where "p = (tn, c')" by (cases p)
  with Inr tracking_step_Inr[of e c tn c'] assms(2,3) show ?thesis by auto
qed

lemma address_step_dedup:
  assumes "address_step e uid a role c = Inr (aid, c')"
  shows "(aid, work c') = dedup_address uid a role (work c)"
  using address_step_Inr[OF assms]
  by (auto simp: dedup_address_def insert_address_def split: list.splits)

lemma address_step_no_fault:
  assumes "no_faults e"
  shows "\<exists>aid c'. address_step e uid a role c = Inr (aid, c')"
proof (cases "address_step e uid a role c")
  case (Inl x)
  from address_step_Inl[of e uid a role c "fst x" "snd x"] Inl assms show ?thesis
    by (auto simp: no_faults_def)
next
  case (Inr p)
  then show ?thesis by (cases p) auto
qed

lemma item_loop_Inl:
  "item_loop e oid its c = Inl (x, cf) \<Longrightarrow> \<exists>n. x = DbError n \<and> stmt_fails e n"
proof (induction its arbitrary: c)
  case Nil
  then show ?case by simp
next
  case (Cons it its)
  then show ?case
    by (fastforce split: sum.splits if_splits dest!: query_Inl)
qed

lemma item_loop_no_fault:
  assumes "no_faults e"
  shows "\<exists>c'. item_loop e oid its c = Inr c'"
proof (cases "item_loop e oid its c")
  case (Inl x)
  from item_loop_Inl[of e oid its c "fst x" "snd x"] Inl assms show ?thesis
    by (auto simp: no_faults_def)
next
  case (Inr c')
  then show ?thesis by blast
qed

lemma order_tx_Inr:
  assumes "order_tx e uid its sa ba tot c0 = Inr (oid, c)"
  shows "\<exists>tn c2 c3. work c = committed_state uid its sa ba tot tn (work c0)
           \<and> oid = next_order_id (work c0)
           \<and> work c2 = snd (dedup_address uid ba Billing (snd (dedup_address uid sa Shipping (work c0))))
           \<and> tracking_step e c2 = Inr (tn, c3)"
proof -
  from assms obtain sid c1 bid c2 tn c3 c4 where
    s1: "address_step e uid sa Shipping c0 = Inr (sid, c1)"
    and s2: "address_step e uid ba Billing c1 = Inr (bid, c2)"
    and s3: "tracking_step e c2 = Inr (tn, c3)"
    and s4: "query e (insert_order uid tot sid bid tn) c3 = Inr (oid, c4)"
    and s5: "item_loop e oid its c4 = Inr c"
    by (auto simp: order_tx_def split: sum.splits prod.splits)
  note d1 = address_step_dedup[OF s1]
  note d2 = address_step_dedup[OF s2]
  from tracking_step_Inr[OF s3] have w3: "work c3 = work c2" by simp
  from query_Inr[OF s4] w3 have
    o: "oid = fst (insert_order uid tot sid bid tn (work c2))"
    and w4: "work c4 = snd (insert_order uid tot sid bid tn (work c2))" by simp_all
  note w5 = item_loop_Inr[OF s5]
  have nid: "next_order_id (work c2) = next_order_id (work c0)"
    using address_step_frame[OF s1] address_step_frame[OF s2] by simp
  have "work c = committed_state uid its sa ba tot tn (work c0)"
    using w5 w4 o d1[symmetric] d2[symmetric]
    by (simp add: committed_state_def insert_order_def)
  moreover have "oid = next_order_id (work c0)"
    using o nid by (simp add: insert_order_def)
  moreover have "work c2 = snd (dedup_address uid ba Billing (snd (dedup_address uid sa Shipping (work c0))))"
    using d1 d2 by (metis snd_conv)
  ultimately show ?thesis using s3 by blast
qed


lemma post_order_valid:
  assumes "items req = ItemsArray its" "its \<noteq> []" "shipping_address req = Some sa"
    "billing_address req = Some ba" "getUserByClerkId d (clerk_user_id req) = Some u"
  shows "post_order e d req =
         (case order_tx e (usr_user_id u) its sa ba (total req) \<lparr>work = d, stmts = 0\<rparr> of
            Inl (x, cf) \<Rightarrow> (create_failed x, d, Some (cf\<lparr>work := d\<rparr>))
          | Inr (oid, c) \<Rightarrow>
              (case read_order e oid c of
                 Inl (x, cf) \<Rightarrow> (create_failed x, work c, Some (cf\<lparr>work := work c\<rparr>))
               | Inr (v, c') \<Rightarrow> (order_created v, work c, Some c')))"
  using assms
  by (simp add: post_order_def try_block_def getConnection_def beginTransaction_def commit_def
        rollback_def Let_def split: sum.splits prod.splits)

lemma create_order_valid:
  assumes "items req = ItemsArray its" "its \<noteq> []" "shipping_address req = Some sa"
    "billing_address req = Some ba" "getUserByClerkId d (clerk_user_id req) = Some u"
  shows "create_order e d req =
         (case order_tx e (usr_user_id u) its sa ba (total req) \<lparr>work = d, stmts = 0\<rparr> of
            Inl (x, cf) \<Rightarrow> (create_failed x, d)
          | Inr (oid, c) \<Rightarrow>
              (case read_order e oid c of
                 Inl (x, cf) \<Rightarrow> (create_failed x, work c)
               | Inr (v, c') \<Rightarrow> (order_created v, work c)))"
  using post_order_valid[OF assms, of e]
  by (simp add: create_order_def split: sum.splits prod.splits)

lemma create_order_not_entered:
  assumes "\<not> (\<exists>its sa ba u. items req = ItemsArray its \<and> its \<noteq> [] \<and> shipping_address req = Some sa
             \<and> billing_address req = Some ba \<and> getUserByClerkId d (clerk_user_id req) = Some u)"
  shows "snd (create_order e d req) = d \<and> http_status (fst (create_order e d req)) \<in> {400, 404}"
  using assms
  by (auto simp: create_order_def post_order_def items_required_def addresses_required_def
           user_not_found_def split: items_field.splits option.splits)

lemma create_order_201:
  assumes "http_status (fst (create_order e d req)) = 201"
  shows "\<exists>its sa ba u oid c v. items req = ItemsArray its \<and> its \<noteq> [] \<and> shipping_address req = Some sa
           \<and> billing_address req = Some ba \<and> getUserByClerkId d (clerk_user_id req) = Some u
           \<and> order_tx e (usr_user_id u) its sa ba (total req) \<lparr>work = d, stmts = 0\<rparr> = Inr (oid, c)
           \<and> (\<exists>c'. read_order e oid c = Inr (v, c'))
           \<and> create_order e d req = (order_created v, work c)"
proof (cases "\<exists>its sa ba u. items req = ItemsArray its \<and> its \<noteq> [] \<and> shipping_address req = Some sa
             \<and> billing_address req = Some ba \<and> getUserByClerkId d (clerk_user_id req) = Some u")
  case False
  from create_order_not_entered[OF False, of e] assms show ?thesis by auto
next
  case True
  then obtain its sa ba u where v: "items req = ItemsArray its" "its \<noteq> []"
    "shipping_address req = Some sa" "billing_address req = Some ba"
    "getUserByClerkId d (clerk_user_id req) = Some u" by blast
  note co = create_order_valid[OF v, of e]
  show ?thesis
  proof (cases "order_tx e (usr_user_id u) its sa ba (total req) \<lparr>work = d, stmts = 0\<rparr>")
    case (Inl x)
    with co assms show ?thesis by (simp add: create_failed_def split: prod.splits)
  next
    case (Inr p)
    obtain oid c where p: "p = (oid, c)" by (cases p)
    show ?thesis
    proof (cases "read_order e oid c")
      case (Inl x)
      with co Inr p assms show ?thesis by (simp add: create_failed_def split: prod.splits)
    next
      case r: (Inr q)
      obtain vw c' where q: "q = (vw, c')" by (cases q)
      with r co Inr p v show ?thesis by auto
    qed
  qed
qed

lemma dedup_address_frame:
  assumes "dedup_address uid a role d = (aid, d')"
  shows "users d' = users d \<and> orders d' = orders d \<and> order_items d' = order_items d
         \<and> product_variants d' = product_variants d \<and> products d' = products d
         \<and> next_order_id d' = next_order_id d \<and> next_order_item_id d' = next_order_item_id d
         \<and> (\<exists>new. addresses d' = addresses d @ new)"
  using assms by (auto simp: dedup_address_def insert_address_def split: list.splits)

lemma committed_state_unfold:
  "committed_state uid its sa ba tot tn d =
     after_items (next_order_id d) its
       (snd (insert_order uid tot (fst (dedup_address uid sa Shipping d))
               (fst (dedup_address uid ba Billing (snd (dedup_address uid sa Shipping d)))) tn
               (snd (dedup_address uid ba Billing (snd (dedup_address uid sa Shipping d))))))"
proof -
  obtain sid d1 where a: "dedup_address uid sa Shipping d = (sid, d1)" by (cases "dedup_address uid sa Shipping d")
  obtain bid d2 where b: "dedup_address uid ba Billing d1 = (bid, d2)" by (cases "dedup_address uid ba Billing d1")
  have "next_order_id d2 = next_order_id d"
    using dedup_address_frame[OF a] dedup_address_frame[OF b] by simp
  then show ?thesis
    by (simp add: committed_state_def a b insert_order_def)
qed

lemma committed_orders:
  "orders (committed_state uid its sa ba tot tn d) =
     orders d @ [new_order_row (next_order_id d) uid tot (fst (dedup_address uid sa Shipping d))
                   (fst (dedup_address uid ba Billing (snd (dedup_address uid sa Shipping d)))) tn]"
proof -
  obtain sid d1 where a: "dedup_address uid sa Shipping d = (sid, d1)" by (cases "dedup_address uid sa Shipping d")
  obtain bid d2 where b: "dedup_address uid ba Billing d1 = (bid, d2)" by (cases "dedup_address uid ba Billing d1")
  show ?thesis
    using dedup_address_frame[OF a] dedup_address_frame[OF b]
    by (simp add: committed_state_unfold a b insert_order_def after_items_def)
qed

lemma committed_order_items:
  "order_items (committed_state uid its sa ba tot tn d) =
     order_items d @ item_rows (next_order_item_id d) (next_order_id d) its"
proof -
  obtain sid d1 where a: "dedup_address uid sa Shipping d = (sid, d1)" by (cases "dedup_address uid sa Shipping d")
  obtain bid d2 where b: "dedup_address uid ba Billing d1 = (bid, d2)" by (cases "dedup_address uid ba Billing d1")
  show ?thesis
    using dedup_address_frame[OF a] dedup_address_frame[OF b]
    by (simp add: committed_state_unfold a b insert_order_def after_items_def)
qed

lemma committed_variants:
  "product_variants (committed_state uid its sa ba tot tn d) =
     map (\<lambda>v. v\<lparr>pv_stock_quantity := pv_stock_quantity v - ordered_quantity its (pv_variant_id v)\<rparr>)
         (product_variants d)"
proof -
  obtain sid d1 where a: "dedup_address uid sa Shipping d = (sid, d1)" by (cases "dedup_address uid sa Shipping d")
  obtain bid d2 where b: "dedup_address uid ba Billing d1 = (bid, d2)" by (cases "dedup_address uid ba Billing d1")
  show ?thesis
    using dedup_address_frame[OF a] dedup_address_frame[OF b]
    by (simp add: committed_state_unfold a b insert_order_def after_items_def)
qed

lemma committed_users_products:
  "users (committed_state uid its sa ba tot tn d) = users d
   \<and> products (committed_state uid its sa ba tot tn d) = products d"
proof -
  obtain sid d1 where a: "dedup_address uid sa Shipping d = (sid, d1)" by (cases "dedup_address uid sa Shipping d")
  obtain bid d2 where b: "dedup_address uid ba Billing d1 = (bid, d2)" by (cases "dedup_address uid ba Billing d1")
  show ?thesis
    using dedup_address_frame[OF a] dedup_address_frame[OF b]
    by (simp add: committed_state_unfold a b insert_order_def after_items_def)
qed


lemma item_rows_length: "length (item_rows n oid its) = length its"
  by (induction its arbitrary: n) simp_all

lemma item_rows_order_id: "filter (\<lambda>i. oi_order_id i = oid) (item_rows n oid its) = item_rows n oid its"
  by (induction its arbitrary: n) (simp_all add: new_order_item_row_def)

lemma item_rows_unit_price: "map oi_unit_price (item_rows n oid its) = map recorded_price its"
  by (induction its arbitrary: n) (simp_all add: new_order_item_row_def)

lemma item_rows_variant: "map oi_variant_id (item_rows n oid its) = map variant_ref its"
  by (induction its arbitrary: n) (simp_all add: new_order_item_row_def)

lemma item_rows_quantity: "map oi_quantity (item_rows n oid its) = map quantity its"
  by (induction its arbitrary: n) (simp_all add: new_order_item_row_def)

lemma item_rows_line_total:
  "map line_total (item_rows n oid its)
   = map (\<lambda>it. map_option (\<lambda>p. quantity it * p) (recorded_price it)) its"
  by (induction its arbitrary: n) (simp_all add: new_order_item_row_def line_total_def)

lemma committed_line_items:
  assumes "list_all (\<lambda>i. oi_order_id i < next_order_id d) (order_items d)"
  shows "line_items_of (committed_state uid its sa ba tot tn d) (next_order_id d)
         = item_rows (next_order_item_id d) (next_order_id d) its"
proof -
  have "filter (\<lambda>i. oi_order_id i = next_order_id d) (order_items d) = []"
    using assms by (auto simp: filter_empty_conv list_all_iff)
  then show ?thesis
    by (simp add: line_items_of_def committed_order_items item_rows_order_id)
qed

lemma left_join_Nil: "left_join [] f = []"
  by (simp add: left_join_def)

lemma left_join_Cons:
  "left_join (x # xs) f =
     (case f x of [] \<Rightarrow> [(x, None)] | y # ys \<Rightarrow> map (\<lambda>z. (x, Some z)) (y # ys)) @ left_join xs f"
  by (simp add: left_join_def)

lemma left_join_fst:
  "(\<And>x. x \<in> set xs \<Longrightarrow> length (f x) \<le> 1) \<Longrightarrow> map fst (left_join xs f) = xs"
proof (induction xs)
  case Nil
  then show ?case by (simp add: left_join_Nil)
next
  case (Cons x xs)
  have "length (f x) \<le> 1" using Cons.prems by simp
  then have "map fst (case f x of [] \<Rightarrow> [(x, None)] | y # ys \<Rightarrow> map (\<lambda>z. (x, Some z)) (y # ys)) = [x]"
    by (cases "f x") auto
  with Cons show ?case by (simp add: left_join_Cons)
qed

lemma left_join_hd:
  "xs = x # xs' \<Longrightarrow> \<exists>y rest. left_join xs f = (x, y) # rest"
  by (cases "f x") (auto simp: left_join_Cons)

lemma filter_key_le1:
  "distinct (map k xs) \<Longrightarrow> length (filter (\<lambda>x. Some (k x) = r) xs) \<le> 1"
proof (induction xs)
  case Nil
  then show ?case by simp
next
  case (Cons x xs)
  show ?case
  proof (cases "Some (k x) = r")
    case True
    have "k y \<noteq> k x" if "y \<in> set xs" for y
      using Cons.prems that by (auto simp: image_iff)
    with True have "filter (\<lambda>y. Some (k y) = r) xs = []"
      by (auto simp: filter_empty_conv)
    with True show ?thesis by simp
  next
    case False
    with Cons show ?thesis by simp
  qed
qed

lemma select_order_items_rows:
  assumes "distinct (map pv_variant_id (product_variants d))" "distinct (map p_product_id (products d))"
  shows "map iv_item (fst (select_order_items oid d)) = line_items_of d oid"
proof -
  let ?f = "\<lambda>i. filter (\<lambda>v. Some (pv_variant_id v) = oi_variant_id i) (product_variants d)"
  let ?g = "\<lambda>(i, v). case v of None \<Rightarrow> []
             | Some vr \<Rightarrow> filter (\<lambda>p. Some (p_product_id p) = pv_product_id vr) (products d)"
  let ?J = "left_join (filter (\<lambda>i. oi_order_id i = oid) (order_items d)) ?f"
  have g1: "length (?g p) \<le> 1" for p
    using filter_key_le1[OF assms(2)] by (cases p) (auto split: option.splits)
  have f1: "length (?f i) \<le> 1" for i
    using filter_key_le1[OF assms(1)] by simp
  have a: "map fst (left_join ?J ?g) = ?J"
    by (rule left_join_fst) (rule g1)
  have b: "map fst ?J = filter (\<lambda>i. oi_order_id i = oid) (order_items d)"
    by (rule left_join_fst) (rule f1)
  have "map iv_item (fst (select_order_items oid d)) = map fst (map fst (left_join ?J ?g))"
    by (simp add: select_order_items_def case_prod_beta o_def)
  then show ?thesis by (simp only: a b line_items_of_def)
qed

lemma find_filter: "filter P xs = y # ys \<Longrightarrow> find P xs = Some y"
  by (induction xs) (auto split: if_splits)

lemma select_order_head:
  assumes "filter (\<lambda>r. o_order_id r = oid) (orders d) = r # rs"
  shows "\<exists>v vs. fst (select_order oid d) = v # vs \<and> ov_order v = r \<and> ov_items v = []"
proof -
  let ?f = "\<lambda>r. filter (\<lambda>a. a_address_id a = o_shipping_address_id r) (addresses d)"
  let ?g = "\<lambda>(r, sa). filter (\<lambda>a. a_address_id a = o_billing_address_id r) (addresses d)"
  from left_join_hd[OF assms, of ?f] obtain y rest where
    j1: "left_join (filter (\<lambda>r. o_order_id r = oid) (orders d)) ?f = (r, y) # rest" by blast
  from left_join_hd[OF j1, of ?g] obtain z rest' where
    "left_join (left_join (filter (\<lambda>r. o_order_id r = oid) (orders d)) ?f) ?g = ((r, y), z) # rest'"
    by blast
  then show ?thesis by (simp add: select_order_def)
qed

lemma select_order_empty:
  assumes "filter (\<lambda>r. o_order_id r = oid) (orders d) = []"
  shows "fst (select_order oid d) = []"
  using assms by (simp add: select_order_def left_join_Nil)

lemma read_order_Inr:
  assumes "read_order e oid c = Inr (v, c')"
  shows "ov_items v = fst (select_order_items oid (work c))
         \<and> order_with_id (work c) oid = Some (ov_order v) \<and> work c' = work c"
proof -
  from assms obtain no c1 where q1: "query e (select_order oid) c = Inr (no, c1)"
    by (auto simp: read_order_def split: sum.splits)
  from assms q1 obtain its c2 where q2: "query e (select_order_items oid) c1 = Inr (its, c2)"
    by (auto simp: read_order_def split: sum.splits)
  from assms q1 q2 obtain ord rest where no: "no = ord # rest" and v: "v = ord\<lparr>ov_items := its\<rparr>"
    by (auto simp: read_order_def split: list.splits)
  have n1: "no = fst (select_order oid (work c))" and w1: "work c1 = work c"
    using query_Inr[OF q1] by (simp_all add: select_order_def)
  have i: "its = fst (select_order_items oid (work c))" and w2: "work c2 = work c"
    using query_Inr[OF q2] w1 by (simp_all add: select_order_items_def)
  from assms q1 q2 no have c': "c' = c2" by (simp add: read_order_def)
  have "filter (\<lambda>r. o_order_id r = oid) (orders (work c)) \<noteq> []"
    using select_order_empty[of oid "work c"] no n1 by auto
  then obtain r rs where f: "filter (\<lambda>r. o_order_id r = oid) (orders (work c)) = r # rs"
    by (cases "filter (\<lambda>r. o_order_id r = oid) (orders (work c))") auto
  from select_order_head[OF f] no n1 have "ov_order ord = r" by auto
  with find_filter[OF f] v i w2 c' show ?thesis by (simp add: order_with_id_def)
qed

lemma read_order_no_fault:
  assumes "no_faults e" "r \<in> set (orders (work c))" "o_order_id r = oid"
  shows "\<exists>v c'. read_order e oid c = Inr (v, c')"
proof -
  have "filter (\<lambda>r. o_order_id r = oid) (orders (work c)) \<noteq> []"
    using assms(2,3) by (auto simp: filter_empty_conv)
  then obtain r' rs where f: "filter (\<lambda>r. o_order_id r = oid) (orders (work c)) = r' # rs"
    by (cases "filter (\<lambda>r. o_order_id r = oid) (orders (work c))") auto
  from select_order_head[OF f] obtain v vs where "fst (select_order oid (work c)) = v # vs" by blast
  then show ?thesis
    using assms(1)
    by (simp add: read_order_def query_no_fault no_faults_def select_order_items_def)
qed

lemma collides_orders: "orders d' = orders d \<Longrightarrow> collides d' s = collides d s"
  by (simp add: collides_def select_tracking_def)

lemma order_tx_no_fault:
  assumes nf: "no_faults e"
    and free: "\<not> ((\<forall>j<maxAttempts. collides (work c0) (candidate e j))
                 \<and> collides (work c0) (fallback_tracking_number e maxAttempts))"
  shows "\<exists>oid c. order_tx e uid its sa ba tot c0 = Inr (oid, c)"
proof -
  from address_step_no_fault[OF nf] obtain sid c1 where
    s1: "address_step e uid sa Shipping c0 = Inr (sid, c1)" by blast
  from address_step_no_fault[OF nf] obtain bid c2 where
    s2: "address_step e uid ba Billing c1 = Inr (bid, c2)" by blast
  have o2: "orders (work c2) = orders (work c0)"
    using address_step_frame[OF s1] address_step_frame[OF s2] by simp
  have "\<exists>tn c3. tracking_step e c2 = Inr (tn, c3)"
  proof (cases "tracking_step e c2")
    case (Inl x)
    have same: "collides (work c2) s = collides (work c0) s" for s
      by (rule collides_orders[OF o2])
    obtain y cf where x: "x = (y, cf)" by (cases x)
    from tracking_step_Inl[OF Inl[unfolded x]] have
      "(\<exists>n. stmt_fails e n)
       \<or> ((\<forall>j<maxAttempts. collides (work c0) (candidate e j))
           \<and> collides (work c0) (fallback_tracking_number e maxAttempts))"
      unfolding same by blast
    with nf free show ?thesis unfolding no_faults_def by blast
  next
    case (Inr p)
    then show ?thesis by (cases p) auto
  qed
  then obtain tn c3 where s3: "tracking_step e c2 = Inr (tn, c3)" by blast
  have "\<not> stmt_fails e (stmts c3)" using nf by (simp add: no_faults_def)
  from query_no_fault[OF this] obtain oid c4 where
    s4: "query e (insert_order uid tot sid bid tn) c3 = Inr (oid, c4)"
    by blast
  from item_loop_no_fault[OF nf] obtain c where s5: "item_loop e oid its c4 = Inr c" by blast
  from s1 s2 s3 s4 s5 show ?thesis by (simp add: order_tx_def)
qed

lemma create_order_succeeds:
  assumes v: "items req = ItemsArray its" "its \<noteq> []" "shipping_address req = Some sa"
    "billing_address req = Some ba" "getUserByClerkId d (clerk_user_id req) = Some u"
    and nf: "no_faults e"
    and free: "\<not> ((\<forall>j<maxAttempts. collides d (candidate e j))
                 \<and> collides d (fallback_tracking_number e maxAttempts))"
  shows "http_status (fst (create_order e d req)) = 201"
proof -
  have free': "\<not> ((\<forall>j<maxAttempts. collides (work \<lparr>work = d, stmts = 0\<rparr>) (candidate e j))
                 \<and> collides (work \<lparr>work = d, stmts = 0\<rparr>) (fallback_tracking_number e maxAttempts))"
    using free by simp
  from order_tx_no_fault[OF nf free'] obtain oid c where
    tx: "order_tx e (usr_user_id u) its sa ba (total req) \<lparr>work = d, stmts = 0\<rparr> = Inr (oid, c)"
    by blast
  from order_tx_Inr[OF tx] obtain tn where
    w: "work c = committed_state (usr_user_id u) its sa ba (total req) tn d"
    and o: "oid = next_order_id d"
    by (elim exE conjE) simp
  have "orders (work c) \<noteq> [] \<and> o_order_id (last (orders (work c))) = oid"
    by (simp add: w committed_orders o new_order_row_def)
  then have "last (orders (work c)) \<in> set (orders (work c))" "o_order_id (last (orders (work c))) = oid"
    by simp_all
  from read_order_no_fault[OF nf this] obtain vw c' where r: "read_order e oid c = Inr (vw, c')" by blast
  have "create_order e d req = (order_created vw, work c)"
    by (simp add: create_order_valid[OF v] tx r)
  then show ?thesis by (simp add: order_created_def)
qed

lemma order_tx_tracking:
  assumes "order_tx e uid its sa ba tot c0 = Inr (oid, c)"
  shows "\<exists>s. work c = committed_state uid its sa ba tot (Some s) (work c0)
           \<and> oid = next_order_id (work c0) \<and> \<not> collides (work c0) s
           \<and> ((\<exists>k<maxAttempts. s = candidate e k \<and> (\<forall>j<k. collides (work c0) (candidate e j)))
                \<or> (s = fallback_tracking_number e maxAttempts
                    \<and> (\<forall>j<maxAttempts. collides (work c0) (candidate e j))))"
proof -
  from order_tx_Inr[OF assms] obtain tn c2 c3 where
    w: "work c = committed_state uid its sa ba tot tn (work c0)" and o: "oid = next_order_id (work c0)"
    and w2: "work c2 = snd (dedup_address uid ba Billing (snd (dedup_address uid sa Shipping (work c0))))"
    and t: "tracking_step e c2 = Inr (tn, c3)" by blast
  obtain sid d1 where a: "dedup_address uid sa Shipping (work c0) = (sid, d1)"
    by (cases "dedup_address uid sa Shipping (work c0)")
  obtain bid d2 where b: "dedup_address uid ba Billing d1 = (bid, d2)"
    by (cases "dedup_address uid ba Billing d1")
  have "orders (work c2) = orders (work c0)"
    using dedup_address_frame[OF a] dedup_address_frame[OF b] by (simp add: w2 a b)
  then have same: "collides (work c2) s = collides (work c0) s" for s
    by (rule collides_orders)
  from tracking_step_Inr[OF t] show ?thesis
    unfolding same using w o by blast
qed

lemma create_order_201_state:
  assumes ok: "http_status (fst (create_order e d req)) = 201" and its: "items req = ItemsArray its"
  shows "\<exists>u sa ba s v. getUserByClerkId d (clerk_user_id req) = Some u
           \<and> shipping_address req = Some sa \<and> billing_address req = Some ba \<and> its \<noteq> []
           \<and> create_order e d req
               = (order_created v, committed_state (usr_user_id u) its sa ba (total req) (Some s) d)
           \<and> ov_items v = fst (select_order_items (next_order_id d) (snd (create_order e d req)))
           \<and> order_with_id (snd (create_order e d req)) (next_order_id d) = Some (ov_order v)
           \<and> \<not> collides d s
           \<and> ((\<exists>k<maxAttempts. s = candidate e k \<and> (\<forall>j<k. collides d (candidate e j)))
                \<or> (s = fallback_tracking_number e maxAttempts
                    \<and> (\<forall>j<maxAttempts. collides d (candidate e j))))"
proof -
  from create_order_201[OF ok] its obtain sa ba u oid c v where
    v: "its \<noteq> []" "shipping_address req = Some sa" "billing_address req = Some ba"
       "getUserByClerkId d (clerk_user_id req) = Some u"
    and tx: "order_tx e (usr_user_id u) its sa ba (total req) \<lparr>work = d, stmts = 0\<rparr> = Inr (oid, c)"
    and r': "\<exists>c'. read_order e oid c = Inr (v, c')"
    and co: "create_order e d req = (order_created v, work c)"
    by auto
  from r' obtain c' where r: "read_order e oid c = Inr (v, c')" by blast
  from order_tx_tracking[OF tx] obtain s where
    w: "work c = committed_state (usr_user_id u) its sa ba (total req) (Some s) d"
    and o: "oid = next_order_id d" and nc: "\<not> collides d s"
    and how: "(\<exists>k<maxAttempts. s = candidate e k \<and> (\<forall>j<k. collides d (candidate e j)))
                \<or> (s = fallback_tracking_number e maxAttempts
                    \<and> (\<forall>j<maxAttempts. collides d (candidate e j)))"
    by (elim exE conjE) simp
  from read_order_Inr[OF r] have
    "ov_items v = fst (select_order_items (next_order_id d) (snd (create_order e d req)))"
    "order_with_id (snd (create_order e d req)) (next_order_id d) = Some (ov_order v)"
    by (simp_all add: co o)
  with v co w nc how show ?thesis by (intro exI conjI) simp_all
qed

lemma committed_keys:
  "map pv_variant_id (product_variants (committed_state uid its sa ba tot tn d))
     = map pv_variant_id (product_variants d)"
  by (simp add: committed_variants o_def)

lemma find_app: "find P (xs @ ys) = (case find P xs of None \<Rightarrow> find P ys | Some x \<Rightarrow> Some x)"
  by (induction xs) simp_all

lemma committed_order_with_id:
  assumes "list_all (\<lambda>r. o_order_id r < next_order_id d) (orders d)"
  shows "order_with_id (committed_state uid its sa ba tot tn d) (next_order_id d) =
         Some (new_order_row (next_order_id d) uid tot (fst (dedup_address uid sa Shipping d))
                 (fst (dedup_address uid ba Billing (snd (dedup_address uid sa Shipping d)))) tn)"
proof -
  have "find (\<lambda>r. o_order_id r = next_order_id d) (orders d) = None"
    using assms by (auto simp: find_None_iff list_all_iff)
  then show ?thesis
    by (simp add: order_with_id_def committed_orders find_app new_order_row_def)
qed

lemma js_or_truthy: "truthy a \<Longrightarrow> js_or a b = a"
  by (simp add: js_or_def)

lemma js_or_falsy: "\<not> truthy a \<Longrightarrow> js_or a b = b"
  by (simp add: js_or_def)

lemma created_line_items:
  assumes ok: "http_status (fst (create_order e d req)) = 201" and its: "items req = ItemsArray its"
    and keys: "keys_ok d"
  shows "line_items_of (snd (create_order e d req)) (next_order_id d)
           = item_rows (next_order_item_id d) (next_order_id d) its
         \<and> (\<exists>v. data (fst (create_order e d req)) = Some v
                \<and> map iv_item (ov_items v) = item_rows (next_order_item_id d) (next_order_id d) its)"
proof -
  from create_order_201_state[OF ok its] obtain u :: user_row and sa ba s v where
    co: "create_order e d req
          = (order_created v, committed_state (usr_user_id u) its sa ba (total req) (Some s) d)"
    and iv: "ov_items v = fst (select_order_items (next_order_id d) (snd (create_order e d req)))"
    by blast
  let ?d' = "committed_state (usr_user_id u) its sa ba (total req) (Some s) d"
  have d': "snd (create_order e d req) = ?d'" by (simp add: co)
  have li: "line_items_of ?d' (next_order_id d) = item_rows (next_order_item_id d) (next_order_id d) its"
    using keys by (intro committed_line_items) (simp add: keys_ok_def)
  have k1: "distinct (map pv_variant_id (product_variants ?d'))"
    using keys by (simp add: committed_keys keys_ok_def)
  have k2: "distinct (map p_product_id (products ?d'))"
    using keys by (simp add: committed_users_products keys_ok_def)
  have "map iv_item (ov_items v) = line_items_of ?d' (next_order_id d)"
    unfolding iv d' by (rule select_order_items_rows[OF k1 k2])
  with li d' co show ?thesis by (simp add: order_created_def)
qed

lemma ordered_quantity_nonzero_key:
  "vid \<noteq> 0 \<Longrightarrow> ordered_quantity its vid
     = sum_list (map quantity (filter (\<lambda>it. variant_ref it = Some vid) its))"
proof -
  assume "vid \<noteq> 0"
  then have "(\<lambda>it. truthy (variant_ref it) \<and> variant_ref it = Some vid) = (\<lambda>it. variant_ref it = Some vid)"
    by (auto simp: truthy_def)
  then show ?thesis by (simp add: ordered_quantity_def)
qed

lemmas run_defs =
  create_order_def post_order_def try_block_def getConnection_def beginTransaction_def commit_def
  rollback_def js_times_def round_double_def round_even_def ulp_def binade.simps Let_def
  order_tx_def address_step_def query_def select_address_def insert_address_def
  new_address_row_def tracking_step_def tracking_loop.simps generateProfessionalTrackingNumber_def
  show_int_def show_nat.simps digit_char_def select_tracking_def insert_order_def new_order_row_def
  insert_order_item_def new_order_item_row_def variant_ref_def recorded_price_def js_or_def truthy_def
  select_variant_def update_stock_def read_order_def select_order_def select_order_items_def
  left_join_def address_of_row_def getUserByClerkId_def address_matches_def maxAttempts_def
  fallback_tracking_number_def slice_last_def padStart_def order_created_def create_failed_def
  sample_db_def sample_env_def sample_request_def sample_address_def sample_item_def
  failing_env_def colliding_env_def zero_ref_item_def oversell_item_def missing_variant_item_def

lemma sample_keys_ok: "keys_ok sample_db"
  by (simp add: keys_ok_def sample_db_def)

lemma sample_run_ok: "http_status (fst (create_order sample_env sample_db sample_request)) = 201"
  by (simp add: run_defs)

lemma sample_user:
  "getUserByClerkId sample_db (clerk_user_id sample_request) = Some \<lparr>usr_user_id = 1, usr_clerk_id = ''clerk_1''\<rparr>"
  by (simp add: run_defs)

lemma address_matches_iff:
  "address_matches uid a r = (a_user_id r = uid \<and> address_of_row r = a)"
  by (cases a) (auto simp: address_matches_def address_of_row_def)

lemma address_matches_new_row: "address_matches uid a (new_address_row aid uid a role)"
  by (simp add: address_matches_def new_address_row_def)

lemma address_step_found:
  assumes "address_step e uid a role c = Inr (aid, c')"
    and "\<exists>r\<in>set (addresses (work c)). address_matches uid a r"
  shows "(\<exists>r\<in>set (addresses (work c)). address_matches uid a r \<and> aid = a_address_id r)
         \<and> work c' = work c"
proof -
  from assms(2) have "filter (address_matches uid a) (addresses (work c)) \<noteq> []"
    by (auto simp: filter_empty_conv)
  then obtain r rs where f: "filter (address_matches uid a) (addresses (work c)) = r # rs"
    by (cases "filter (address_matches uid a) (addresses (work c))") auto
  then have "r \<in> set (filter (address_matches uid a) (addresses (work c)))" by simp
  then have "r \<in> set (addresses (work c))" "address_matches uid a r" by simp_all
  with address_step_Inr[OF assms(1)] f show ?thesis by auto
qed

lemma address_step_inserted:
  assumes "address_step e uid a role c = Inr (aid, c')"
    and "\<forall>r\<in>set (addresses (work c)). \<not> address_matches uid a r"
  shows "aid = next_address_id (work c)
         \<and> work c' = (work c)\<lparr>addresses := addresses (work c) @ [new_address_row aid uid a role],
                               next_address_id := next_address_id (work c) + 1\<rparr>"
proof -
  from assms(2) have "filter (address_matches uid a) (addresses (work c)) = []"
    by (auto simp: filter_empty_conv)
  with address_step_Inr[OF assms(1)] show ?thesis by simp
qed

lemma address_step_again:
  assumes s1: "address_step e uid a role c = Inr (aid, c')"
    and s2: "address_step e' uid a role' c'' = Inr (aid', c3)" and w: "work c'' = work c'"
  shows "aid' = aid \<and> work c3 = work c'"
proof (cases "filter (address_matches uid a) (addresses (work c))")
  case Nil
  with address_step_Inr[OF s1] have
    "filter (address_matches uid a) (addresses (work c')) = [new_address_row aid uid a role]"
    by (simp add: address_matches_new_row)
  with address_step_Inr[OF s2] w show ?thesis by (simp add: new_address_row_def)
next
  case (Cons r rs)
  with address_step_Inr[OF s1] have "aid = a_address_id r" "work c' = work c" by simp_all
  with address_step_Inr[OF s2] w Cons show ?thesis by simp
qed

lemma address_step_id_bound:
  assumes "address_step e uid a role c = Inr (aid, c')"
    and "list_all (\<lambda>r. a_address_id r < next_address_id (work c)) (addresses (work c))"
  shows "aid < next_address_id (work c')"
proof (cases "filter (address_matches uid a) (addresses (work c))")
  case Nil
  with address_step_Inr[OF assms(1)] show ?thesis by simp
next
  case (Cons r rs)
  then have "r \<in> set (filter (address_matches uid a) (addresses (work c)))" by simp
  then have "r \<in> set (addresses (work c))" by simp
  with assms(2) have "a_address_id r < next_address_id (work c)" by (simp add: list_all_iff)
  with address_step_Inr[OF assms(1)] Cons show ?thesis by simp
qed

lemma address_matches_unique:
  "address_matches uid a r \<Longrightarrow> address_matches uid a' r \<Longrightarrow> a' = a"
  by (simp add: address_matches_iff)

lemma candidate_shape:
  assumes "env_ok e"
  shows "\<exists>n. candidate e k = ''TRK'' @ show_nat n \<and> 100000 \<le> n \<and> n \<le> 99999999
             \<and> 6 \<le> length (show_nat n) \<and> length (show_nat n) \<le> 8"
proof -
  from assms have r: "is_double (math_random e k)" "0 \<le> math_random e k" "math_random e k < 1"
    by (simp_all add: env_ok_def)
  from candidate_format[OF r] obtain n where
    g: "candidate e k = ''TRK'' @ show_nat n" and lo: "100000 \<le> n" and hi: "n \<le> 99999999"
    unfolding candidate_def by blast
  have "10 ^ 5 \<le> n" using lo by simp
  from length_show_nat_lower[OF this] have l1: "6 \<le> length (show_nat n)" by simp
  have "n < 10 ^ 8" using hi by simp
  from length_show_nat_upper[OF this] have l2: "length (show_nat n) \<le> 8" by simp
  from g lo hi l1 l2 show ?thesis by blast
qed

lemma candidate_matches_trk: "env_ok e \<Longrightarrow> matches_trk (candidate e k)"
  unfolding candidate_def using candidate_matches[of "math_random e k"] by (simp add: env_ok_def)

lemma tracking_step_matches:
  assumes ok: "env_ok e" and t: "tracking_step e c = Inr (tn, c')"
  shows "work c' = work c \<and> (\<exists>s. tn = Some s \<and> matches_trk s \<and> \<not> collides (work c) s \<and>
     ((\<exists>k<maxAttempts. s = candidate e k \<and> (\<forall>j<k. collides (work c) (candidate e j))
          \<and> stmts c' = stmts c + k + 1)
      \<or> (s = fallback_tracking_number e maxAttempts
          \<and> (\<forall>j<maxAttempts. collides (work c) (candidate e j))
          \<and> stmts c' = stmts c + maxAttempts + 1)))"
proof -
  from tracking_step_Inr[OF t] obtain s where w: "work c' = work c" and tn: "tn = Some s"
    and nc: "\<not> collides (work c) s"
    and how: "(\<exists>k<maxAttempts. s = candidate e k \<and> (\<forall>j<k. collides (work c) (candidate e j))
          \<and> stmts c' = stmts c + k + 1)
      \<or> (s = fallback_tracking_number e maxAttempts
          \<and> (\<forall>j<maxAttempts. collides (work c) (candidate e j))
          \<and> stmts c' = stmts c + maxAttempts + 1)"
    by blast
  from how have "matches_trk s"
    using candidate_matches_trk[OF ok] fallback_matches[OF ok] by auto
  with w tn nc how show ?thesis by blast
qed

lemma tracking_step_total:
  assumes "no_faults e"
  shows "(\<exists>tn c'. tracking_step e c = Inr (tn, c'))
         \<or> (\<exists>cf. tracking_step e c = Inl (tracking_failed, cf))"
proof (cases "tracking_step e c")
  case (Inl x)
  from tracking_step_Inl[of e c "fst x" "snd x"] assms Inl show ?thesis
    by (cases x) (auto simp: no_faults_def)
next
  case (Inr p)
  then show ?thesis by (cases p) auto
qed

lemma created_tracking_number:
  assumes ok: "env_ok e" and st: "http_status (fst (create_order e d req)) = 201"
  shows "orders (snd (create_order e d req)) \<noteq> []
         \<and> (\<exists>s. o_tracking_number (last (orders (snd (create_order e d req)))) = Some s
                \<and> matches_trk s \<and> \<not> collides d s)"
proof -
  from create_order_201[OF st] obtain its where its: "items req = ItemsArray its" by blast
  from create_order_201_state[OF st its] obtain u :: user_row and sa ba s v where
    co: "create_order e d req
          = (order_created v, committed_state (usr_user_id u) its sa ba (total req) (Some s) d)"
    and nc: "\<not> collides d s"
    and how: "(\<exists>k<maxAttempts. s = candidate e k \<and> (\<forall>j<k. collides d (candidate e j)))
                \<or> (s = fallback_tracking_number e maxAttempts
                    \<and> (\<forall>j<maxAttempts. collides d (candidate e j)))"
    by blast
  from how have "matches_trk s"
    using candidate_matches_trk[OF ok] fallback_matches[OF ok] by auto
  with nc show ?thesis by (simp add: co committed_orders new_order_row_def)
qed

lemma order_tx_exhausted:
  assumes nf: "no_faults e"
    and col: "\<forall>j<maxAttempts. collides (work c0) (candidate e j)"
    and fb: "collides (work c0) (fallback_tracking_number e maxAttempts)"
  shows "\<exists>cf. order_tx e uid its sa ba tot c0 = Inl (tracking_failed, cf)"
proof -
  from address_step_no_fault[OF nf] obtain sid c1 where
    s1: "address_step e uid sa Shipping c0 = Inr (sid, c1)" by blast
  from address_step_no_fault[OF nf] obtain bid c2 where
    s2: "address_step e uid ba Billing c1 = Inr (bid, c2)" by blast
  have o2: "orders (work c2) = orders (work c0)"
    using address_step_frame[OF s1] address_step_frame[OF s2] by simp
  have same: "collides (work c2) s = collides (work c0) s" for s
    by (rule collides_orders[OF o2])
  have "\<exists>cf. tracking_step e c2 = Inl (tracking_failed, cf) \<and> work cf = work c2"
    by (rule tracking_step_exhausted[OF nf]) (simp_all add: same col fb)
  with s1 s2 show ?thesis by (auto simp: order_tx_def)
qed

subsection \<open>Concrete runs\<close>

lemmas mixed_defs = mixed_items_def mixed_request_def

lemma sample_env_no_faults: "no_faults sample_env"
  by (simp add: no_faults_def sample_env_def)

lemma sample_candidate_1: "candidate sample_env 1 = ''TRK50050000''"
  by (simp add: candidate_def sample_env_def generateProfessionalTrackingNumber_def show_int_def
        show_nat.simps digit_char_def js_times_def round_double_def round_even_def ulp_def
        binade.simps Let_def)

lemma sample_candidate_free: "\<not> collides sample_db (candidate sample_env 1)"
  unfolding sample_candidate_1 by (simp add: collides_def select_tracking_def sample_db_def)

lemma sample_tracking_free:
  "\<not> ((\<forall>j<maxAttempts. collides sample_db (candidate sample_env j))
      \<and> collides sample_db (fallback_tracking_number sample_env maxAttempts))"
proof
  assume "(\<forall>j<maxAttempts. collides sample_db (candidate sample_env j))
      \<and> collides sample_db (fallback_tracking_number sample_env maxAttempts)"
  then have "collides sample_db (candidate sample_env 1)" by (simp add: maxAttempts_def)
  with sample_candidate_free show False by simp
qed

lemma mixed_run_ok: "http_status (fst (create_order sample_env sample_db mixed_request)) = 201"
proof (rule create_order_succeeds[OF _ _ _ _ _ sample_env_no_faults sample_tracking_free])
  show "items mixed_request = ItemsArray mixed_items" by (simp add: mixed_request_def)
  show "mixed_items \<noteq> []" by (simp add: mixed_items_def)
  show "shipping_address mixed_request = Some sample_address" by (simp add: mixed_request_def)
  show "billing_address mixed_request = Some (sample_address\<lparr>postal_code := ''1212''\<rparr>)"
    by (simp add: mixed_request_def)
  show "getUserByClerkId sample_db (clerk_user_id mixed_request)
        = Some \<lparr>usr_user_id = 1, usr_clerk_id = ''clerk_1''\<rparr>"
    by (simp add: mixed_request_def getUserByClerkId_def sample_db_def)
qed

lemma mixed_items_req: "items mixed_request = ItemsArray mixed_items"
  by (simp add: mixed_request_def)

lemma mixed_prices:
  "map (\<lambda>it. js_or (unit_price it) (price it)) mixed_items = [Some 10, Some 5, Some 3, Some 5]"
  by (simp add: mixed_defs sample_item_def oversell_item_def missing_variant_item_def
        zero_ref_item_def js_or_def truthy_def)

lemma sample_items_req: "items sample_request = ItemsArray [sample_item]"
  by (simp add: sample_request_def)

lemma sample_next_ids: "next_order_id sample_db = 3" "next_order_item_id sample_db = 3"
  by (simp_all add: sample_db_def)

lemma mixed_refs:
  "map (\<lambda>it. if truthy (variant_id it) then variant_id it else product_id it) mixed_items
     = [Some 5, Some 6, Some 99, Some 0]"
  by (simp add: mixed_defs sample_item_def oversell_item_def missing_variant_item_def
        zero_ref_item_def truthy_def)

lemma mixed_prices_if:
  "map (\<lambda>it. if truthy (unit_price it) then unit_price it else price it) mixed_items
     = [Some 10, Some 5, Some 3, Some 5]"
  by (simp add: mixed_defs sample_item_def oversell_item_def missing_variant_item_def
        zero_ref_item_def truthy_def)

lemma mixed_stock:
  "map pv_stock_quantity
     (map (\<lambda>v. v\<lparr>pv_stock_quantity := pv_stock_quantity v - ordered_quantity mixed_items (pv_variant_id v)\<rparr>)
          (product_variants sample_db)) = [5, - 1]"
  by (simp add: sample_db_def ordered_quantity_def mixed_defs sample_item_def oversell_item_def
        missing_variant_item_def zero_ref_item_def variant_ref_def js_or_def truthy_def)

lemma mixed_valid:
  "items mixed_request = ItemsArray mixed_items \<and> mixed_items \<noteq> []
   \<and> shipping_address mixed_request = Some sample_address
   \<and> billing_address mixed_request = Some (sample_address\<lparr>postal_code := ''1212''\<rparr>)
   \<and> getUserByClerkId sample_db (clerk_user_id mixed_request)
        = Some \<lparr>usr_user_id = 1, usr_clerk_id = ''clerk_1''\<rparr>"
  by (simp add: mixed_request_def mixed_items_def getUserByClerkId_def sample_db_def)

lemma sample_free_attempt: "\<exists>j<maxAttempts. \<not> collides sample_db (candidate sample_env j)"
proof -
  have "(1::nat) < maxAttempts" by (simp add: maxAttempts_def)
  with sample_candidate_free show ?thesis by blast
qed

lemma mixed_variant_99: "filter (\<lambda>v. pv_variant_id v = 99) (product_variants sample_db) = []"
  by (simp add: sample_db_def)

lemma sample_address_found:
  "address_step sample_env 1 sample_address Shipping \<lparr>work = sample_db, stmts = 0\<rparr>
     = Inr (1, \<lparr>work = sample_db, stmts = 1\<rparr>)"
  by (simp add: run_defs)

lemma sample_address_moved:
  "address_step sample_env 1 moved_address Billing \<lparr>work = sample_db, stmts = 1\<rparr>
     = Inr (2, \<lparr>work = sample_db\<lparr>addresses := addresses sample_db @ [new_address_row 2 1 moved_address Billing],
                                  next_address_id := 3\<rparr>, stmts = 3\<rparr>)"
  by (simp add: run_defs moved_address_def)

lemma sample_address_keys:
  "list_all (\<lambda>r. a_address_id r < next_address_id sample_db) (addresses sample_db)"
  by (simp add: sample_db_def)

lemma sample_address_on_file: "\<exists>r\<in>set (addresses sample_db). address_matches 1 sample_address r"
  by (simp add: sample_db_def sample_address_def address_matches_def)

lemma moved_address_new:
  "moved_address \<noteq> sample_address
   \<and> (\<forall>r\<in>set (addresses sample_db). \<not> address_matches 1 moved_address r)"
  by (simp add: sample_db_def sample_address_def address_matches_def moved_address_def)

lemma sample_env_ok: "env_ok sample_env"
  by (simp add: env_ok_def sample_env_def is_double_def round_double_def round_even_def ulp_def
        binade.simps Let_def)

lemma rounding_env_ok: "env_ok rounding_env"
  by (simp add: env_ok_def rounding_env_def is_double_def round_double_def round_even_def ulp_def
        binade.simps Let_def)

lemma rounding_candidate: "candidate rounding_env 0 = ''TRK70030000''"
  by (simp add: candidate_def rounding_env_def generateProfessionalTrackingNumber_def
        js_times_def round_double_def round_even_def ulp_def binade.simps Let_def show_int_def
        show_nat.simps digit_char_def)

lemma rounding_fallback: "fallback_tracking_number rounding_env maxAttempts = ''TRK0000000070''"
  by (simp add: fallback_tracking_number_def rounding_env_def maxAttempts_def slice_last_def
        padStart_def js_times_def round_double_def round_even_def ulp_def binade.simps Let_def
        show_int_def show_nat.simps digit_char_def)

lemma sample_tracking_step:
  "tracking_step sample_env \<lparr>work = sample_db, stmts = 2\<rparr>
     = Inr (Some ''TRK50050000'', \<lparr>work = sample_db, stmts = 4\<rparr>)"
  by (simp add: run_defs)

lemma sample_candidate_0: "candidate sample_env 0 = ''TRK100000''"
  by (simp add: candidate_def sample_env_def generateProfessionalTrackingNumber_def show_int_def
        show_nat.simps digit_char_def js_times_def round_double_def round_even_def ulp_def
        binade.simps Let_def)

lemma sample_fallback: "fallback_tracking_number sample_env maxAttempts = ''TRK0000000050''"
  by (simp add: run_defs)

lemma colliding_candidate: "candidate colliding_env j = ''TRK100000''"
  by (simp add: candidate_def colliding_env_def generateProfessionalTrackingNumber_def show_int_def
        show_nat.simps digit_char_def js_times_def round_double_def)

lemma colliding_fallback: "fallback_tracking_number colliding_env maxAttempts = ''TRK0000000000''"
  by (simp add: run_defs)

lemma colliding_all: "\<forall>j<maxAttempts. collides sample_db (candidate colliding_env j)"
  by (simp add: colliding_candidate collides_def select_tracking_def sample_db_def)

lemma colliding_fb: "collides sample_db (fallback_tracking_number colliding_env maxAttempts)"
  by (simp add: colliding_fallback collides_def select_tracking_def sample_db_def)

lemma colliding_no_faults: "no_faults colliding_env"
  by (simp add: no_faults_def colliding_env_def)

lemma sample_valid:
  "items sample_request = ItemsArray [sample_item]" "[sample_item] \<noteq> []"
  "shipping_address sample_request = Some sample_address"
  "billing_address sample_request = Some sample_address"
  by (simp_all add: sample_request_def)

lemma colliding_run:
  "create_order colliding_env sample_db sample_request = (create_failed tracking_failed, sample_db)"
  by (simp add: run_defs tracking_failed_def Let_def)

lemma failing_run:
  "create_order failing_env sample_db sample_request = (create_failed (DbError 7), sample_db)"
  by (simp add: run_defs)



section \<open>Validation\<close>



section \<open>Atomicity of the creation\<close>
























section \<open>The tracking number\<close>

text \<open>
  C3. With \<^verbatim>\<open>Math.random()\<close> a double in \<open>[0, 1)\<close> and a clock of eight digits
  or more: a candidate is \<^verbatim>\<open>TRK\<close> followed by the decimal digits of a number from
  100000 to 99999999, that is six to eight digits. The number is the floor of the rounded
  product, which stays below 99900000 because the largest double below 1 gives a product
  that rounds down. The step checks each candidate against the orders and returns the
  first that no order carries, after at most 10 attempts; when all 10 collide it takes
  \<^verbatim>\<open>TRK\<close>, the last eight digits of the clock and two more digits, and checks
  once more. It leaves the tables as they are, and when no statement throws it returns a
  number or fails with the exhaustion error. The tracking number of every created order
  matches \<^verbatim>\<open>TRK\d{6,10}\<close> and was carried by no order before. In the last
  concrete run the random number is the double nearest to 0.7, for which the rounded and the
  exact product have different floors.
\<close>

theorem tracking_number_generation:
  assumes ok: "env_ok e"
  shows "(\<forall>k. \<exists>n. candidate e k = ''TRK'' @ show_nat n \<and> 100000 \<le> n \<and> n \<le> 99999999
               \<and> 6 \<le> length (show_nat n) \<and> length (show_nat n) \<le> 8)
         \<and> (\<forall>c tn c'. tracking_step e c = Inr (tn, c') \<longrightarrow>
               work c' = work c \<and> (\<exists>s. tn = Some s \<and> matches_trk s \<and> \<not> collides (work c) s \<and>
                 ((\<exists>k<maxAttempts. s = candidate e k \<and> (\<forall>j<k. collides (work c) (candidate e j))
                      \<and> stmts c' = stmts c + k + 1)
                  \<or> (s = fallback_tracking_number e maxAttempts
                      \<and> (\<forall>j<maxAttempts. collides (work c) (candidate e j))
                      \<and> stmts c' = stmts c + maxAttempts + 1))))
         \<and> maxAttempts = 10
         \<and> (\<exists>ts rs. fallback_tracking_number e maxAttempts = ''TRK'' @ ts @ rs
               \<and> ts = slice_last 8 (show_nat (date_now e)) \<and> length ts = 8 \<and> list_all is_digit ts
               \<and> length rs = 2 \<and> list_all is_digit rs)
         \<and> (\<forall>c. no_faults e \<longrightarrow>
               (\<exists>tn c'. tracking_step e c = Inr (tn, c'))
               \<or> (\<exists>cf. tracking_step e c = Inl (tracking_failed, cf)))
         \<and> (\<forall>d req. http_status (fst (create_order e d req)) = 201 \<longrightarrow>
               orders (snd (create_order e d req)) \<noteq> []
               \<and> (\<exists>s. o_tracking_number (last (orders (snd (create_order e d req)))) = Some s
                      \<and> matches_trk s \<and> \<not> collides d s))"
proof (intro conjI allI impI)
  fix k show "\<exists>n. candidate e k = ''TRK'' @ show_nat n \<and> 100000 \<le> n \<and> n \<le> 99999999
               \<and> 6 \<le> length (show_nat n) \<and> length (show_nat n) \<le> 8"
    by (rule candidate_shape[OF ok])
next
  fix c tn c' assume t: "tracking_step e c = Inr (tn, c')"
  from tracking_step_matches[OF ok t]
  show "work c' = work c"
    and "\<exists>s. tn = Some s \<and> matches_trk s \<and> \<not> collides (work c) s \<and>
                 ((\<exists>k<maxAttempts. s = candidate e k \<and> (\<forall>j<k. collides (work c) (candidate e j))
                      \<and> stmts c' = stmts c + k + 1)
                  \<or> (s = fallback_tracking_number e maxAttempts
                      \<and> (\<forall>j<maxAttempts. collides (work c) (candidate e j))
                      \<and> stmts c' = stmts c + maxAttempts + 1))"
    by simp_all
next
  show "maxAttempts = 10" by (simp add: maxAttempts_def)
next
  show "\<exists>ts rs. fallback_tracking_number e maxAttempts = ''TRK'' @ ts @ rs
               \<and> ts = slice_last 8 (show_nat (date_now e)) \<and> length ts = 8 \<and> list_all is_digit ts
               \<and> length rs = 2 \<and> list_all is_digit rs"
    by (rule fallback_format[OF ok])
next
  fix c assume "no_faults e"
  then show "(\<exists>tn c'. tracking_step e c = Inr (tn, c'))
               \<or> (\<exists>cf. tracking_step e c = Inl (tracking_failed, cf))"
    by (rule tracking_step_total)
next
  fix d req assume st: "http_status (fst (create_order e d req)) = 201"
  from created_tracking_number[OF ok st]
  show "orders (snd (create_order e d req)) \<noteq> []"
    and "\<exists>s. o_tracking_number (last (orders (snd (create_order e d req)))) = Some s
                      \<and> matches_trk s \<and> \<not> collides d s"
    by simp_all
qed

theorem tracking_number_generation_witness:
  "env_ok sample_env
   \<and> candidate sample_env 0 = ''TRK100000'' \<and> collides sample_db ''TRK100000''
   \<and> candidate sample_env 1 = ''TRK50050000''
   \<and> tracking_step sample_env \<lparr>work = sample_db, stmts = 2\<rparr>
       = Inr (Some ''TRK50050000'', \<lparr>work = sample_db, stmts = 4\<rparr>)
   \<and> matches_trk ''TRK50050000''
   \<and> fallback_tracking_number sample_env maxAttempts = ''TRK0000000050''
   \<and> http_status (fst (create_order sample_env sample_db sample_request)) = 201
   \<and> (\<exists>s. o_tracking_number (last (orders (snd (create_order sample_env sample_db sample_request)))) = Some s
          \<and> matches_trk s)
   \<and> env_ok rounding_env
   \<and> \<lfloor>math_random rounding_env 0 * 99900000\<rfloor> = 69929999
   \<and> candidate rounding_env 0 = ''TRK70030000''
   \<and> (\<exists>n. ''TRK70030000'' = ''TRK'' @ show_nat n \<and> 100000 \<le> n \<and> n \<le> 99999999)
   \<and> fallback_tracking_number rounding_env maxAttempts = ''TRK0000000070''"
proof -
  note T = tracking_number_generation[OF sample_env_ok]
  note R = tracking_number_generation[OF rounding_env_ok]
  have x: "\<lfloor>math_random rounding_env 0 * 99900000\<rfloor> = 69929999"
    by (simp add: rounding_env_def)
  from R[THEN conjunct1, rule_format, of 0]
  have n: "\<exists>n. ''TRK70030000'' = ''TRK'' @ show_nat n \<and> 100000 \<le> n \<and> n \<le> 99999999"
    unfolding rounding_candidate by (elim exE conjE) (intro exI conjI, assumption+)
  have c: "collides sample_db ''TRK100000''"
    by (simp add: collides_def select_tracking_def sample_db_def)
  from T[THEN conjunct2, THEN conjunct1, rule_format, OF sample_tracking_step]
  have m: "matches_trk ''TRK50050000''"
    by (elim exE conjE) simp
  from T[THEN conjunct2, THEN conjunct2, THEN conjunct2, THEN conjunct2, THEN conjunct2,
      rule_format, OF sample_run_ok]
  have r: "\<exists>s. o_tracking_number (last (orders (snd (create_order sample_env sample_db sample_request)))) = Some s
          \<and> matches_trk s"
    by (elim exE conjE) (intro exI conjI, assumption+)
  show ?thesis
    by (intro conjI sample_env_ok sample_candidate_0 c sample_candidate_1 sample_tracking_step m
        sample_fallback sample_run_ok r rounding_env_ok x rounding_candidate n rounding_fallback)
qed

text \<open>
  C4 as stated fails. When all candidates and the fallback collide, the handler answers as
  it does for a failing statement: status 500 and the message
  \<^verbatim>\<open>Failed to create order\<close>. There is no error of another kind.
\<close>

theorem no_conflict_error_counterexample:
  "fst (create_order colliding_env sample_db sample_request) = create_failed tracking_failed
   \<and> fst (create_order failing_env sample_db sample_request) = create_failed (DbError 7)
   \<and> http_status (fst (create_order colliding_env sample_db sample_request)) = 500
   \<and> http_status (fst (create_order failing_env sample_db sample_request)) = 500
   \<and> message (fst (create_order colliding_env sample_db sample_request)) = ''Failed to create order''
   \<and> message (fst (create_order failing_env sample_db sample_request)) = ''Failed to create order''"
  by (simp add: colliding_run failing_run create_failed_def)

text \<open>
  C4, as amended. When no statement throws, all 10 candidates collide and the fallback
  collides too, the creation fails: the state is unchanged and the answer is the one of
  every failure in the transaction, status 500 with the message
  \<^verbatim>\<open>Failed to create order\<close>; only its error detail, the message of the
  exhaustion error, tells it apart.
\<close>

theorem tracking_exhaustion_fails:
  assumes v: "items req = ItemsArray its" "its \<noteq> []" "shipping_address req = Some sa"
    "billing_address req = Some ba" "getUserByClerkId d (clerk_user_id req) = Some u"
    and nf: "no_faults e"
    and col: "\<forall>j<maxAttempts. collides d (candidate e j)"
    and fb: "collides d (fallback_tracking_number e maxAttempts)"
  shows "create_order e d req = (create_failed tracking_failed, d)
         \<and> http_status (create_failed tracking_failed) = 500
         \<and> message (create_failed tracking_failed) = ''Failed to create order''
         \<and> error (create_failed tracking_failed)
             = Some (JsError ''Failed to generate unique tracking number after multiple attempts'')
         \<and> (\<forall>x. http_status (create_failed x) = http_status (create_failed tracking_failed)
                \<and> message (create_failed x) = message (create_failed tracking_failed))"
proof -
  have "\<exists>cf. order_tx e (usr_user_id u) its sa ba (total req) \<lparr>work = d, stmts = 0\<rparr>
               = Inl (tracking_failed, cf)"
    by (rule order_tx_exhausted[OF nf]) (simp_all add: col fb)
  then have "create_order e d req = (create_failed tracking_failed, d)"
    by (auto simp: create_order_valid[OF v])
  then show ?thesis by (simp add: create_failed_def tracking_failed_def)
qed

theorem tracking_exhaustion_fails_witness:
  "items sample_request = ItemsArray [sample_item] \<and> [sample_item] \<noteq> []
   \<and> shipping_address sample_request = Some sample_address
   \<and> billing_address sample_request = Some sample_address
   \<and> getUserByClerkId sample_db (clerk_user_id sample_request)
       = Some \<lparr>usr_user_id = 1, usr_clerk_id = ''clerk_1''\<rparr>
   \<and> no_faults colliding_env
   \<and> (\<forall>j. candidate colliding_env j = ''TRK100000'') \<and> collides sample_db ''TRK100000''
   \<and> fallback_tracking_number colliding_env maxAttempts = ''TRK0000000000''
   \<and> collides sample_db ''TRK0000000000''
   \<and> create_order colliding_env sample_db sample_request = (create_failed tracking_failed, sample_db)"
proof -
  note T = tracking_exhaustion_fails[OF sample_valid sample_user colliding_no_faults colliding_all
      colliding_fb]
  have c1: "collides sample_db ''TRK100000''"
    by (simp add: collides_def select_tracking_def sample_db_def)
  have c2: "collides sample_db ''TRK0000000000''"
    by (simp add: collides_def select_tracking_def sample_db_def)
  have a: "\<forall>j. candidate colliding_env j = ''TRK100000''"
    by (simp add: colliding_candidate)
  show ?thesis
    by (intro conjI sample_valid sample_user colliding_no_faults a c1 colliding_fallback c2
        T[THEN conjunct1])
qed

section \<open>Address deduplication\<close>

text \<open>
  C5. An address step that completes, from a state whose address keys are below the
  counter: a row matches when it belongs to the user and its five components are equal to
  those of the request. If a row matches, the key of a matching row is returned and the
  state is unchanged; otherwise a row with the five components and the flag of the role is
  appended and its key, the next one, is returned. The same address submitted again gets the
  same key and no new row; an address that differs in a component and is not on file gets
  a new row with another key.
\<close>

theorem address_deduplication:
  assumes step: "address_step e uid a role c = Inr (aid, c')"
    and keys: "list_all (\<lambda>r. a_address_id r < next_address_id (work c)) (addresses (work c))"
  shows "((\<exists>r\<in>set (addresses (work c)). address_matches uid a r) \<longrightarrow>
            (\<exists>r\<in>set (addresses (work c)). address_matches uid a r \<and> aid = a_address_id r)
            \<and> work c' = work c)
         \<and> ((\<forall>r\<in>set (addresses (work c)). \<not> address_matches uid a r) \<longrightarrow>
            aid = next_address_id (work c)
            \<and> addresses (work c') = addresses (work c) @ [new_address_row aid uid a role]
            \<and> a_is_shipping (new_address_row aid uid a role) = (if role = Shipping then Some True else None)
            \<and> a_is_billing (new_address_row aid uid a role) = (if role = Billing then Some True else None))
         \<and> (\<forall>r. address_matches uid a r = (a_user_id r = uid \<and> address_of_row r = a))
         \<and> (\<forall>e' role' c2 aid' c3. work c2 = work c' \<and> address_step e' uid a role' c2 = Inr (aid', c3) \<longrightarrow>
               aid' = aid \<and> work c3 = work c')
         \<and> (\<forall>a' e' role' c2 aid' c3. a' \<noteq> a
               \<and> (\<forall>r\<in>set (addresses (work c)). \<not> address_matches uid a' r)
               \<and> work c2 = work c' \<and> address_step e' uid a' role' c2 = Inr (aid', c3) \<longrightarrow>
               aid' \<noteq> aid
               \<and> addresses (work c3) = addresses (work c') @ [new_address_row aid' uid a' role'])"
proof (intro conjI allI impI)
  assume "\<exists>r\<in>set (addresses (work c)). address_matches uid a r"
  from address_step_found[OF step this]
  show "\<exists>r\<in>set (addresses (work c)). address_matches uid a r \<and> aid = a_address_id r"
    and "work c' = work c" by simp_all
next
  assume "\<forall>r\<in>set (addresses (work c)). \<not> address_matches uid a r"
  from address_step_inserted[OF step this]
  show "aid = next_address_id (work c)"
    and "addresses (work c') = addresses (work c) @ [new_address_row aid uid a role]"
    by simp_all
  show "a_is_shipping (new_address_row aid uid a role) = (if role = Shipping then Some True else None)"
    by (cases role) (simp_all add: new_address_row_def)
  show "a_is_billing (new_address_row aid uid a role) = (if role = Billing then Some True else None)"
    by (cases role) (simp_all add: new_address_row_def)
next
  fix r show "address_matches uid a r = (a_user_id r = uid \<and> address_of_row r = a)"
    by (rule address_matches_iff)
next
  fix e' role' c2 aid' c3
  assume h: "work c2 = work c' \<and> address_step e' uid a role' c2 = Inr (aid', c3)"
  then have "address_step e' uid a role' c2 = Inr (aid', c3)" "work c2 = work c'" by simp_all
  from address_step_again[OF step this] show "aid' = aid" and "work c3 = work c'" by simp_all
next
  fix a' e' role' c2 aid' c3
  assume h: "a' \<noteq> a \<and> (\<forall>r\<in>set (addresses (work c)). \<not> address_matches uid a' r)
               \<and> work c2 = work c' \<and> address_step e' uid a' role' c2 = Inr (aid', c3)"
  then have ne: "a' \<noteq> a" and none: "\<forall>r\<in>set (addresses (work c)). \<not> address_matches uid a' r"
    and w: "work c2 = work c'" and s2: "address_step e' uid a' role' c2 = Inr (aid', c3)"
    by simp_all
  have none': "\<forall>r\<in>set (addresses (work c2)). \<not> address_matches uid a' r"
  proof (cases "filter (address_matches uid a) (addresses (work c))")
    case Nil
    with address_step_Inr[OF step] have
      "addresses (work c') = addresses (work c) @ [new_address_row aid uid a role]" by simp
    moreover have "\<not> address_matches uid a' (new_address_row aid uid a role)"
    proof
      assume "address_matches uid a' (new_address_row aid uid a role)"
      from address_matches_unique[OF address_matches_new_row this] ne show False by simp
    qed
    ultimately show ?thesis using none w by auto
  next
    case (Cons r rs)
    with address_step_Inr[OF step] have "work c' = work c" by simp
    with none w show ?thesis by simp
  qed
  from address_step_inserted[OF s2 none'] w
  have i: "aid' = next_address_id (work c')"
    and a: "addresses (work c3) = addresses (work c') @ [new_address_row aid' uid a' role']"
    by simp_all
  from address_step_id_bound[OF step keys] i show "aid' \<noteq> aid" by simp
  from a show "addresses (work c3) = addresses (work c') @ [new_address_row aid' uid a' role']" .
qed

theorem address_deduplication_witness:
  "address_step sample_env 1 sample_address Shipping \<lparr>work = sample_db, stmts = 0\<rparr>
     = Inr (1, \<lparr>work = sample_db, stmts = 1\<rparr>)
   \<and> list_all (\<lambda>r. a_address_id r < next_address_id sample_db) (addresses sample_db)
   \<and> (\<exists>r\<in>set (addresses sample_db). address_matches 1 sample_address r \<and> 1 = a_address_id r)
   \<and> moved_address \<noteq> sample_address
   \<and> address_step sample_env 1 moved_address Billing \<lparr>work = sample_db, stmts = 1\<rparr>
     = Inr (2, \<lparr>work = sample_db\<lparr>addresses := addresses sample_db @ [new_address_row 2 1 moved_address Billing],
                                  next_address_id := 3\<rparr>, stmts = 3\<rparr>)
   \<and> (2::int) \<noteq> 1
   \<and> a_is_billing (new_address_row 2 1 moved_address Billing) = Some True"
proof -
  have k: "list_all (\<lambda>r. a_address_id r < next_address_id (work \<lparr>work = sample_db, stmts = 0\<rparr>))
             (addresses (work \<lparr>work = sample_db, stmts = 0\<rparr>))"
    using sample_address_keys by simp
  note T = address_deduplication[OF sample_address_found k]
  have f: "\<exists>r\<in>set (addresses sample_db). address_matches 1 sample_address r \<and> 1 = a_address_id r"
    using T[THEN conjunct1] sample_address_on_file by simp
  have n: "(2::int) \<noteq> 1"
    using T[THEN conjunct2, THEN conjunct2, THEN conjunct2, THEN conjunct2, rule_format,
        of moved_address "\<lparr>work = sample_db, stmts = 1\<rparr>" sample_env Billing 2]
      moved_address_new sample_address_moved by simp
  have b: "a_is_billing (new_address_row 2 1 moved_address Billing) = Some True"
    by (simp add: new_address_row_def)
  show ?thesis
    by (intro conjI sample_address_found sample_address_keys f moved_address_new[THEN conjunct1]
        sample_address_moved n b)
qed

section \<open>Line items\<close>

lemma free_run_ok:
  "http_status (fst (create_order sample_env sample_db
      (sample_request\<lparr>items := ItemsArray [free_item]\<rparr>))) = 201"
  by (simp add: run_defs free_item_def)

lemma free_run_items:
  "items (sample_request\<lparr>items := ItemsArray [free_item]\<rparr>) = ItemsArray [free_item]"
  by simp

text \<open>
  C6 as stated fails. The recorded price is the field \<^verbatim>\<open>unit_price\<close> only when
  that is truthy: for an item given away, with a \<^verbatim>\<open>unit_price\<close> of 0 and no field
  \<^verbatim>\<open>price\<close>, the order is created and the price recorded and returned is
  \<^verbatim>\<open>NULL\<close>, not 0.
\<close>

theorem unit_price_zero_counterexample:
  "unit_price free_item = Some 0
   \<and> http_status (fst (create_order sample_env sample_db
        (sample_request\<lparr>items := ItemsArray [free_item]\<rparr>))) = 201
   \<and> map oi_unit_price (line_items_of (snd (create_order sample_env sample_db
        (sample_request\<lparr>items := ItemsArray [free_item]\<rparr>))) 3) = [None]
   \<and> map (\<lambda>i. oi_unit_price (iv_item i))
        (case data (fst (create_order sample_env sample_db
           (sample_request\<lparr>items := ItemsArray [free_item]\<rparr>))) of
           None \<Rightarrow> [] | Some v \<Rightarrow> ov_items v) = [None]"
  by (simp add: run_defs free_item_def line_items_of_def)

text \<open>
  C6, as amended. After a successful creation from a state with sound keys, the table of
  line items has grown by exactly one row for each item of the request, in order, and the
  order returned carries as many line items as the request has items. The unit price of
  each, read back from the line item itself, is the field \<^verbatim>\<open>unit_price\<close> of the
  item when that is truthy, and otherwise its field \<^verbatim>\<open>price\<close>, which may be
  absent; no price is looked up.
\<close>

theorem line_items_match_request:
  assumes ok: "http_status (fst (create_order e d req)) = 201" and its: "items req = ItemsArray its"
    and keys: "keys_ok d"
  shows "order_items (snd (create_order e d req))
           = order_items d @ item_rows (next_order_item_id d) (next_order_id d) its
         \<and> length (item_rows (next_order_item_id d) (next_order_id d) its) = length its
         \<and> (\<exists>v. data (fst (create_order e d req)) = Some v
                \<and> map iv_item (ov_items v) = item_rows (next_order_item_id d) (next_order_id d) its
                \<and> length (ov_items v) = length its
                \<and> map (\<lambda>i. oi_unit_price (iv_item i)) (ov_items v)
                    = map (\<lambda>it. if truthy (unit_price it) then unit_price it else price it) its)
         \<and> map oi_unit_price (line_items_of (snd (create_order e d req)) (next_order_id d))
             = map (\<lambda>it. if truthy (unit_price it) then unit_price it else price it) its
         \<and> (\<forall>it\<in>set its. truthy (unit_price it) = (unit_price it \<noteq> None \<and> unit_price it \<noteq> Some 0))"
proof -
  from create_order_201_state[OF ok its] obtain u :: user_row and sa ba s v where
    co: "create_order e d req
          = (order_created v, committed_state (usr_user_id u) its sa ba (total req) (Some s) d)"
    by blast
  have a: "order_items (snd (create_order e d req))
           = order_items d @ item_rows (next_order_item_id d) (next_order_id d) its"
    by (simp add: co committed_order_items)
  from created_line_items[OF ok its keys] obtain w where
    li: "line_items_of (snd (create_order e d req)) (next_order_id d)
           = item_rows (next_order_item_id d) (next_order_id d) its"
    and w: "data (fst (create_order e d req)) = Some w"
    and rows: "map iv_item (ov_items w) = item_rows (next_order_item_id d) (next_order_id d) its"
    by blast
  from rows have len: "length (ov_items w) = length its"
    by (metis item_rows_length length_map)
  have p: "map recorded_price its
           = map (\<lambda>it. if truthy (unit_price it) then unit_price it else price it) its"
    by (simp add: recorded_price_def js_or_def)
  have "map (\<lambda>i. oi_unit_price (iv_item i)) (ov_items w) = map oi_unit_price (map iv_item (ov_items w))"
    by (simp add: o_def)
  also have "\<dots> = map (\<lambda>it. if truthy (unit_price it) then unit_price it else price it) its"
    unfolding rows item_rows_unit_price by (rule p)
  finally have pr: "map (\<lambda>i. oi_unit_price (iv_item i)) (ov_items w)
                    = map (\<lambda>it. if truthy (unit_price it) then unit_price it else price it) its" .
  have st: "map oi_unit_price (line_items_of (snd (create_order e d req)) (next_order_id d))
             = map (\<lambda>it. if truthy (unit_price it) then unit_price it else price it) its"
    unfolding li item_rows_unit_price by (rule p)
  have t: "\<forall>it\<in>set its. truthy (unit_price it) = (unit_price it \<noteq> None \<and> unit_price it \<noteq> Some 0)"
    by (auto simp: truthy_def split: option.splits)
  from w rows len pr have ex: "\<exists>v. data (fst (create_order e d req)) = Some v
                \<and> map iv_item (ov_items v) = item_rows (next_order_item_id d) (next_order_id d) its
                \<and> length (ov_items v) = length its
                \<and> map (\<lambda>i. oi_unit_price (iv_item i)) (ov_items v)
                    = map (\<lambda>it. if truthy (unit_price it) then unit_price it else price it) its"
    by blast
  from a ex st t show ?thesis by (simp add: item_rows_length)
qed

theorem line_items_match_request_witness:
  "http_status (fst (create_order sample_env sample_db mixed_request)) = 201
   \<and> items mixed_request = ItemsArray mixed_items \<and> keys_ok sample_db
   \<and> length (order_items (snd (create_order sample_env sample_db mixed_request)))
       = length (order_items sample_db) + 4
   \<and> map unit_price mixed_items = [Some 10, None, Some 3, Some 0]
   \<and> map price mixed_items = [None, Some 5, None, Some 5]
   \<and> (\<exists>v. data (fst (create_order sample_env sample_db mixed_request)) = Some v
          \<and> length (ov_items v) = 4
          \<and> map (\<lambda>i. oi_unit_price (iv_item i)) (ov_items v) = [Some 10, Some 5, Some 3, Some 5])
   \<and> http_status (fst (create_order sample_env sample_db
        (sample_request\<lparr>items := ItemsArray [free_item]\<rparr>))) = 201
   \<and> unit_price free_item = Some 0 \<and> price free_item = None
   \<and> map oi_unit_price (line_items_of (snd (create_order sample_env sample_db
        (sample_request\<lparr>items := ItemsArray [free_item]\<rparr>))) 3) = [None]"
proof -
  note T = line_items_match_request[OF mixed_run_ok mixed_items_req sample_keys_ok]
  note F = line_items_match_request[OF free_run_ok free_run_items sample_keys_ok,
      unfolded sample_next_ids]
  have l: "length mixed_items = 4" by (simp add: mixed_items_def)
  have a: "length (order_items (snd (create_order sample_env sample_db mixed_request)))
       = length (order_items sample_db) + 4"
    by (simp only: T[THEN conjunct1] length_append item_rows_length l)
  have u: "map unit_price mixed_items = [Some 10, None, Some 3, Some 0]"
    by (simp add: mixed_defs sample_item_def oversell_item_def missing_variant_item_def
          zero_ref_item_def)
  have p: "map price mixed_items = [None, Some 5, None, Some 5]"
    by (simp add: mixed_defs sample_item_def oversell_item_def missing_variant_item_def
          zero_ref_item_def)
  have b: "\<exists>v. data (fst (create_order sample_env sample_db mixed_request)) = Some v
          \<and> length (ov_items v) = 4
          \<and> map (\<lambda>i. oi_unit_price (iv_item i)) (ov_items v) = [Some 10, Some 5, Some 3, Some 5]"
    using T[THEN conjunct2, THEN conjunct2, THEN conjunct1]
    by (elim exE conjE) (intro exI conjI, assumption, simp only: l, simp only: mixed_prices_if)
  have fu: "unit_price free_item = Some 0" and fp: "price free_item = None"
    by (simp_all add: free_item_def)
  have fr: "map (\<lambda>it. if truthy (unit_price it) then unit_price it else price it) [free_item] = [None]"
    by (simp add: free_item_def truthy_def)
  have f: "map oi_unit_price (line_items_of (snd (create_order sample_env sample_db
        (sample_request\<lparr>items := ItemsArray [free_item]\<rparr>))) 3) = [None]"
    by (simp only: F[THEN conjunct2, THEN conjunct2, THEN conjunct2, THEN conjunct1] fr)
  show ?thesis
    by (intro conjI mixed_run_ok mixed_items_req sample_keys_ok a u p b free_run_ok fu fp f)
qed

section \<open>Stock\<close>

text \<open>
  C7. After a successful creation the stock of every variant is its stock of before minus the
  quantities of the items that refer to it, with no floor, and one line item is recorded for
  every item, whether its variant exists or not. A variant whose key is not zero is
  referred to by exactly the items whose reference equals its key. A valid request whose
  statements complete and one of whose candidates is free succeeds, whatever its items
  refer to.
\<close>

theorem stock_follows_line_items:
  "(http_status (fst (create_order e d req)) = 201 \<and> items req = ItemsArray its \<longrightarrow>
      product_variants (snd (create_order e d req))
        = map (\<lambda>v. v\<lparr>pv_stock_quantity := pv_stock_quantity v - ordered_quantity its (pv_variant_id v)\<rparr>)
              (product_variants d)
      \<and> (\<forall>v\<in>set (product_variants d). pv_variant_id v \<noteq> 0 \<longrightarrow>
            ordered_quantity its (pv_variant_id v)
              = sum_list (map quantity (filter (\<lambda>it. variant_ref it = Some (pv_variant_id v)) its)))
      \<and> order_items (snd (create_order e d req))
           = order_items d @ item_rows (next_order_item_id d) (next_order_id d) its)
   \<and> (items req = ItemsArray its \<and> its \<noteq> [] \<and> shipping_address req = Some sa
        \<and> billing_address req = Some ba \<and> getUserByClerkId d (clerk_user_id req) = Some u
        \<and> no_faults e \<and> (\<exists>j<maxAttempts. \<not> collides d (candidate e j)) \<longrightarrow>
      http_status (fst (create_order e d req)) = 201)"
proof (intro conjI impI)
  assume h: "http_status (fst (create_order e d req)) = 201 \<and> items req = ItemsArray its"
  from create_order_201_state[of e d req its] h obtain u :: user_row and sa ba s v where
    co: "create_order e d req
          = (order_created v, committed_state (usr_user_id u) its sa ba (total req) (Some s) d)"
    by blast
  show "product_variants (snd (create_order e d req))
        = map (\<lambda>v. v\<lparr>pv_stock_quantity := pv_stock_quantity v - ordered_quantity its (pv_variant_id v)\<rparr>)
              (product_variants d)"
    by (simp add: co committed_variants)
  show "order_items (snd (create_order e d req))
           = order_items d @ item_rows (next_order_item_id d) (next_order_id d) its"
    by (simp add: co committed_order_items)
  show "\<forall>v\<in>set (product_variants d). pv_variant_id v \<noteq> 0 \<longrightarrow>
            ordered_quantity its (pv_variant_id v)
              = sum_list (map quantity (filter (\<lambda>it. variant_ref it = Some (pv_variant_id v)) its))"
    by (simp add: ordered_quantity_nonzero_key)
next
  assume h: "items req = ItemsArray its \<and> its \<noteq> [] \<and> shipping_address req = Some sa
        \<and> billing_address req = Some ba \<and> getUserByClerkId d (clerk_user_id req) = Some u
        \<and> no_faults e \<and> (\<exists>j<maxAttempts. \<not> collides d (candidate e j))"
  then have "\<not> ((\<forall>j<maxAttempts. collides d (candidate e j))
                 \<and> collides d (fallback_tracking_number e maxAttempts))"
    by blast
  with h show "http_status (fst (create_order e d req)) = 201"
    by (intro create_order_succeeds[of req its sa ba d u e]) simp_all
qed

theorem stock_follows_line_items_witness:
  "items mixed_request = ItemsArray mixed_items \<and> mixed_items \<noteq> []
   \<and> shipping_address mixed_request = Some sample_address
   \<and> billing_address mixed_request = Some (sample_address\<lparr>postal_code := ''1212''\<rparr>)
   \<and> getUserByClerkId sample_db (clerk_user_id mixed_request)
        = Some \<lparr>usr_user_id = 1, usr_clerk_id = ''clerk_1''\<rparr>
   \<and> no_faults sample_env \<and> (\<exists>j<maxAttempts. \<not> collides sample_db (candidate sample_env j))
   \<and> variant_ref missing_variant_item = Some 99
   \<and> filter (\<lambda>v. pv_variant_id v = 99) (product_variants sample_db) = []
   \<and> http_status (fst (create_order sample_env sample_db mixed_request)) = 201
   \<and> map pv_stock_quantity (product_variants sample_db) = [7, 1]
   \<and> map pv_stock_quantity (product_variants (snd (create_order sample_env sample_db mixed_request)))
       = [5, - 1]
   \<and> length (order_items (snd (create_order sample_env sample_db mixed_request)))
       = length (order_items sample_db) + 4"
proof -
  note B = stock_follows_line_items[THEN conjunct2, rule_format, of mixed_request mixed_items sample_address
      "sample_address\<lparr>postal_code := ''1212''\<rparr>" sample_db
      "\<lparr>usr_user_id = 1, usr_clerk_id = ''clerk_1''\<rparr>" sample_env]
  have ok: "http_status (fst (create_order sample_env sample_db mixed_request)) = 201"
    by (rule B) (intro conjI mixed_valid[THEN conjunct1] mixed_valid[THEN conjunct2, THEN conjunct1]
        mixed_valid[THEN conjunct2, THEN conjunct2, THEN conjunct1]
        mixed_valid[THEN conjunct2, THEN conjunct2, THEN conjunct2, THEN conjunct1]
        mixed_valid[THEN conjunct2, THEN conjunct2, THEN conjunct2, THEN conjunct2]
        sample_env_no_faults sample_free_attempt)
  note A = stock_follows_line_items[THEN conjunct1, rule_format, OF conjI, OF ok mixed_items_req]
  have s: "map pv_stock_quantity (product_variants (snd (create_order sample_env sample_db mixed_request)))
       = [5, - 1]"
    by (simp only: A[THEN conjunct1] mixed_stock)
  have l: "length mixed_items = 4" by (simp add: mixed_items_def)
  have n: "length (order_items (snd (create_order sample_env sample_db mixed_request)))
       = length (order_items sample_db) + 4"
    by (simp only: A[THEN conjunct2, THEN conjunct2] length_append item_rows_length l)
  have r: "variant_ref missing_variant_item = Some 99"
    by (simp add: variant_ref_def missing_variant_item_def js_or_def truthy_def)
  have b: "map pv_stock_quantity (product_variants sample_db) = [7, 1]"
    by (simp add: sample_db_def)
  show ?thesis
    by (intro conjI mixed_valid[THEN conjunct1] mixed_valid[THEN conjunct2, THEN conjunct1]
        mixed_valid[THEN conjunct2, THEN conjunct2, THEN conjunct1]
        mixed_valid[THEN conjunct2, THEN conjunct2, THEN conjunct2, THEN conjunct1]
        mixed_valid[THEN conjunct2, THEN conjunct2, THEN conjunct2, THEN conjunct2]
        sample_env_no_faults sample_free_attempt r mixed_variant_99 ok b s n)
qed

section \<open>The stored total\<close>

text \<open>
  C9 as stated fails. The total is the one the request carries and nothing compares it
  with the items: the sample request with a total of 999 is accepted, while its only line
  item amounts to 20.
\<close>

theorem total_not_checked_counterexample:
  "http_status (fst (create_order sample_env sample_db (sample_request\<lparr>total := Some 999\<rparr>))) = 201
   \<and> \<not> total_consistent (snd (create_order sample_env sample_db (sample_request\<lparr>total := Some 999\<rparr>))) 3"
  by (simp add: run_defs total_consistent_def order_with_id_def items_total_def
        line_items_of_def line_total_def)

text \<open>
  C9, as amended. After a successful creation from a state with sound keys the stored total
  of the new order is the total of the request, the sum over its line items is the sum over
  the items of the request, and the two agree exactly when the request's total is that
  sum.
\<close>

theorem stored_total_is_request_total:
  assumes ok: "http_status (fst (create_order e d req)) = 201" and its: "items req = ItemsArray its"
    and keys: "keys_ok d"
  shows "map_option o_total_amount (order_with_id (snd (create_order e d req)) (next_order_id d))
           = Some (total req)
         \<and> items_total (snd (create_order e d req)) (next_order_id d) = request_total its
         \<and> total_consistent (snd (create_order e d req)) (next_order_id d)
             = (total req = request_total its)"
proof -
  from create_order_201_state[OF ok its] obtain u :: user_row and sa ba s v where
    co: "create_order e d req
          = (order_created v, committed_state (usr_user_id u) its sa ba (total req) (Some s) d)"
    by blast
  have a: "map_option o_total_amount (order_with_id (snd (create_order e d req)) (next_order_id d))
           = Some (total req)"
    using keys by (simp add: co committed_order_with_id keys_ok_def new_order_row_def)
  from created_line_items[OF ok its keys]
  have b: "items_total (snd (create_order e d req)) (next_order_id d) = request_total its"
    by (simp add: items_total_def request_total_def item_rows_line_total)
  from a b show ?thesis by (auto simp: total_consistent_def)
qed

theorem stored_total_is_request_total_witness:
  "http_status (fst (create_order sample_env sample_db sample_request)) = 201
   \<and> items sample_request = ItemsArray [sample_item] \<and> keys_ok sample_db
   \<and> total sample_request = Some 20 \<and> request_total [sample_item] = Some 20
   \<and> items_total (snd (create_order sample_env sample_db sample_request)) 3 = Some 20
   \<and> total_consistent (snd (create_order sample_env sample_db sample_request)) 3"
proof -
  note T = stored_total_is_request_total[OF sample_run_ok sample_items_req sample_keys_ok,
      unfolded sample_next_ids]
  have t: "total sample_request = Some 20" by (simp add: sample_request_def)
  have r: "request_total [sample_item] = Some 20"
    by (simp add: request_total_def sample_item_def recorded_price_def js_or_def truthy_def)
  have i: "items_total (snd (create_order sample_env sample_db sample_request)) 3 = Some 20"
    by (simp only: T[THEN conjunct2, THEN conjunct1] r)
  have c: "total_consistent (snd (create_order sample_env sample_db sample_request)) 3"
    by (simp only: T[THEN conjunct2, THEN conjunct2] t r)
  show ?thesis
    by (intro conjI sample_run_ok sample_items_req sample_keys_ok t r i c)
qed

section \<open>Coalescing of the item fields\<close>

text \<open>
  C10 as stated fails in its last part. For an item whose \<^verbatim>\<open>variant_id\<close> is
  absent and whose \<^verbatim>\<open>product_id\<close> is 0, both references are falsy and the
  recorded reference is 0, not \<^verbatim>\<open>NULL\<close>.
\<close>

theorem null_reference_counterexample:
  "\<not> truthy (variant_id zero_ref_item) \<and> \<not> truthy (product_id zero_ref_item)
   \<and> http_status (fst (create_order sample_env sample_db
          (sample_request\<lparr>items := ItemsArray [zero_ref_item]\<rparr>))) = 201
   \<and> map oi_variant_id (line_items_of (snd (create_order sample_env sample_db
          (sample_request\<lparr>items := ItemsArray [zero_ref_item]\<rparr>))) 3) = [Some 0]"
  by (simp add: run_defs line_items_of_def)

text \<open>
  C10, as amended. After a successful creation from a state with sound keys, the variant
  reference recorded for an item is \<^verbatim>\<open>variant_id\<close> if truthy and
  \<^verbatim>\<open>product_id\<close> otherwise, and the recorded unit price is
  \<^verbatim>\<open>unit_price\<close> if truthy and \<^verbatim>\<open>price\<close> otherwise, so a
  \<^verbatim>\<open>unit_price\<close> of 0 records \<^verbatim>\<open>price\<close>. When both references
  are falsy the recorded reference is the value of \<^verbatim>\<open>product_id\<close> (absent, or
  0), the item takes no part in any decrement, and the loop runs one statement for it, the
  insertion of its line item.
\<close>

theorem item_fields_coalesce:
  assumes ok: "http_status (fst (create_order e d req)) = 201" and its: "items req = ItemsArray its"
    and keys: "keys_ok d"
  shows "map oi_variant_id (line_items_of (snd (create_order e d req)) (next_order_id d))
           = map (\<lambda>it. if truthy (variant_id it) then variant_id it else product_id it) its
         \<and> map oi_unit_price (line_items_of (snd (create_order e d req)) (next_order_id d))
           = map (\<lambda>it. if truthy (unit_price it) then unit_price it else price it) its
         \<and> (\<forall>it\<in>set its. unit_price it = Some 0 \<longrightarrow> recorded_price it = price it)
         \<and> (\<forall>it\<in>set its. \<not> truthy (variant_id it) \<and> \<not> truthy (product_id it) \<longrightarrow>
               variant_ref it = product_id it \<and> (\<forall>vid. ordered_quantity [it] vid = 0))
         \<and> product_variants (snd (create_order e d req))
             = map (\<lambda>v. v\<lparr>pv_stock_quantity := pv_stock_quantity v - ordered_quantity its (pv_variant_id v)\<rparr>)
                   (product_variants d)
         \<and> (\<forall>it oid c c'. \<not> truthy (variant_id it) \<and> \<not> truthy (product_id it)
               \<and> item_loop e oid [it] c = Inr c' \<longrightarrow>
               stmts c' = Suc (stmts c)
               \<and> product_variants (work c') = product_variants (work c)
               \<and> order_items (work c')
                   = order_items (work c) @ [new_order_item_row (next_order_item_id (work c)) oid it])"
proof -
  from create_order_201_state[OF ok its] obtain u :: user_row and sa ba s v where
    co: "create_order e d req
          = (order_created v, committed_state (usr_user_id u) its sa ba (total req) (Some s) d)"
    by blast
  from created_line_items[OF ok its keys]
  have li: "line_items_of (snd (create_order e d req)) (next_order_id d)
            = item_rows (next_order_item_id d) (next_order_id d) its" by simp
  have a: "map oi_variant_id (line_items_of (snd (create_order e d req)) (next_order_id d))
           = map (\<lambda>it. if truthy (variant_id it) then variant_id it else product_id it) its"
    by (simp add: li item_rows_variant variant_ref_def js_or_def)
  have b: "map oi_unit_price (line_items_of (snd (create_order e d req)) (next_order_id d))
           = map (\<lambda>it. if truthy (unit_price it) then unit_price it else price it) its"
    by (simp add: li item_rows_unit_price recorded_price_def js_or_def)
  have c: "\<forall>it\<in>set its. unit_price it = Some 0 \<longrightarrow> recorded_price it = price it"
    by (simp add: recorded_price_def js_or_def truthy_def)
  have f: "\<forall>it\<in>set its. \<not> truthy (variant_id it) \<and> \<not> truthy (product_id it) \<longrightarrow>
               variant_ref it = product_id it \<and> (\<forall>vid. ordered_quantity [it] vid = 0)"
    by (simp add: variant_ref_def js_or_def ordered_quantity_def)
  have g: "product_variants (snd (create_order e d req))
             = map (\<lambda>v. v\<lparr>pv_stock_quantity := pv_stock_quantity v - ordered_quantity its (pv_variant_id v)\<rparr>)
                   (product_variants d)"
    by (simp add: co committed_variants)
  have h: "stmts c' = Suc (stmts c)
           \<and> product_variants (work c') = product_variants (work c)
           \<and> order_items (work c')
               = order_items (work c) @ [new_order_item_row (next_order_item_id (work c)) oid it]"
    if "\<not> truthy (variant_id it) \<and> \<not> truthy (product_id it) \<and> item_loop e oid [it] c = Inr c'"
    for it oid c c'
  proof -
    from that have nt: "\<not> truthy (variant_ref it)" by (simp add: variant_ref_def js_or_def)
    with that obtain u where "query e (insert_order_item oid it) c = Inr (u, c')"
      by (auto split: sum.splits)
    from query_Inr[OF this] show ?thesis by (simp add: insert_order_item_def)
  qed
  from a b c f g h show ?thesis by blast
qed

theorem item_fields_coalesce_witness:
  "http_status (fst (create_order sample_env sample_db mixed_request)) = 201
   \<and> items mixed_request = ItemsArray mixed_items \<and> keys_ok sample_db
   \<and> map oi_variant_id (line_items_of (snd (create_order sample_env sample_db mixed_request)) 3)
       = [Some 5, Some 6, Some 99, Some 0]
   \<and> map oi_unit_price (line_items_of (snd (create_order sample_env sample_db mixed_request)) 3)
       = [Some 10, Some 5, Some 3, Some 5]
   \<and> map pv_stock_quantity (product_variants (snd (create_order sample_env sample_db mixed_request)))
       = [5, - 1]"
proof -
  note T = item_fields_coalesce[OF mixed_run_ok mixed_items_req sample_keys_ok,
      unfolded sample_next_ids]
  have a: "map oi_variant_id (line_items_of (snd (create_order sample_env sample_db mixed_request)) 3)
       = [Some 5, Some 6, Some 99, Some 0]"
    by (simp only: T[THEN conjunct1] mixed_refs)
  have b: "map oi_unit_price (line_items_of (snd (create_order sample_env sample_db mixed_request)) 3)
       = [Some 10, Some 5, Some 3, Some 5]"
    by (simp only: T[THEN conjunct2, THEN conjunct1] mixed_prices_if)
  have c: "map pv_stock_quantity (product_variants (snd (create_order sample_env sample_db mixed_request)))
       = [5, - 1]"
    by (simp only: T[THEN conjunct2, THEN conjunct2, THEN conjunct2, THEN conjunct2, THEN conjunct1]
          mixed_stock)
  show ?thesis
    by (intro conjI mixed_run_ok mixed_items_req sample_keys_ok a b c)
qed

section \<open>Self-service cancellation\<close>

lemma cancel_order_success_iff:
  "(http_status (fst (cancel_order d cid oid)) = 200) =
   (\<exists>u r. getUserByClerkId d cid = Some u \<and> r \<in> set (orders d) \<and> cancellable oid (usr_user_id u) r)"
  by (auto simp: cancel_order_def user_not_found_def cancel_rejected_def cancel_done_def Let_def
                 filter_empty_conv split: option.splits)

lemma cancel_order_rejected:
  "http_status (fst (cancel_order d cid oid)) \<noteq> 200 \<Longrightarrow>
   snd (cancel_order d cid oid) = d \<and> http_status (fst (cancel_order d cid oid)) = 404"
  by (auto simp: cancel_order_def user_not_found_def cancel_rejected_def cancel_done_def Let_def
           split: option.splits if_splits)

lemma unique_order_row:
  assumes "distinct (map o_order_id (orders d))" "r \<in> set (orders d)" "x \<in> set (orders d)"
    "o_order_id x = o_order_id r"
  shows "x = r"
  using assms by (meson distinct_map inj_onD)

lemma cancel_order_effect:
  assumes dist: "distinct (map o_order_id (orders d))"
    and ok: "http_status (fst (cancel_order d cid oid)) = 200"
  shows "snd (cancel_order d cid oid) =
         d\<lparr>orders := map (\<lambda>r. if o_order_id r = oid then r\<lparr>o_status := Cancelled\<rparr> else r) (orders d)\<rparr>"
proof -
  from ok obtain u r where u: "getUserByClerkId d cid = Some u" and r: "r \<in> set (orders d)"
    and c: "cancellable oid (usr_user_id u) r"
    unfolding cancel_order_success_iff by blast
  have own: "o_user_id x = usr_user_id u" if "x \<in> set (orders d)" "o_order_id x = oid" for x
    using unique_order_row[OF dist r that(1)] that(2) c by (simp add: cancellable_def)
  have "map (\<lambda>r. if o_order_id r = oid \<and> o_user_id r = usr_user_id u then r\<lparr>o_status := Cancelled\<rparr> else r) (orders d)
        = map (\<lambda>r. if o_order_id r = oid then r\<lparr>o_status := Cancelled\<rparr> else r) (orders d)"
    by (rule map_cong) (auto simp: own)
  moreover have "filter (cancellable oid (usr_user_id u)) (orders d) \<noteq> []"
    using r c by (auto simp: filter_empty_conv)
  ultimately show ?thesis
    using u by (simp add: cancel_order_def Let_def)
qed

text \<open>
  C8. With unique order keys, the self-service cancellation answers 200 exactly when the
  requester resolves to a user who owns the order and the order is pending or processing.
  Then the order becomes cancelled and every other row stays as it is. In every other case
  the answer is 404 and the state, the status of the order included, is unchanged.
\<close>

theorem self_service_cancel:
  assumes "distinct (map o_order_id (orders d))"
  shows "((http_status (fst (cancel_order d cid oid)) = 200) =
            (\<exists>u r. getUserByClerkId d cid = Some u \<and> r \<in> set (orders d) \<and> o_order_id r = oid
                   \<and> o_user_id r = usr_user_id u \<and> (o_status r = Pending \<or> o_status r = Processing)))
         \<and> (http_status (fst (cancel_order d cid oid)) = 200 \<longrightarrow>
              snd (cancel_order d cid oid) =
                d\<lparr>orders := map (\<lambda>r. if o_order_id r = oid then r\<lparr>o_status := Cancelled\<rparr> else r)
                                (orders d)\<rparr>)
         \<and> (http_status (fst (cancel_order d cid oid)) \<noteq> 200 \<longrightarrow>
              http_status (fst (cancel_order d cid oid)) = 404 \<and> snd (cancel_order d cid oid) = d)"
  using cancel_order_effect[OF assms] cancel_order_rejected[of d cid oid]
    cancel_order_success_iff[of d cid oid]
  by (auto simp: cancellable_def)

theorem self_service_cancel_witness:
  "distinct (map o_order_id (orders sample_db))
   \<and> http_status (fst (cancel_order sample_db ''clerk_1'' 1)) = 200
   \<and> map o_status (orders (snd (cancel_order sample_db ''clerk_1'' 1))) = [Cancelled, Shipped]
   \<and> http_status (fst (cancel_order sample_db ''clerk_1'' 2)) = 404
   \<and> snd (cancel_order sample_db ''clerk_1'' 2) = sample_db
   \<and> http_status (fst (cancel_order sample_db ''clerk_2'' 1)) = 404
   \<and> snd (cancel_order sample_db ''clerk_2'' 1) = sample_db"
proof -
  have d: "distinct (map o_order_id (orders sample_db))"
    by (simp add: sample_db_def)
  have s1: "http_status (fst (cancel_order sample_db ''clerk_1'' 1)) = 200"
    by (simp add: cancel_order_def sample_db_def getUserByClerkId_def cancellable_def cancel_done_def)
  have s2: "http_status (fst (cancel_order sample_db ''clerk_1'' 2)) \<noteq> 200"
    by (simp add: cancel_order_def sample_db_def getUserByClerkId_def cancellable_def
          cancel_rejected_def)
  have s3: "http_status (fst (cancel_order sample_db ''clerk_2'' 1)) \<noteq> 200"
    by (simp add: cancel_order_def sample_db_def getUserByClerkId_def cancellable_def
          cancel_rejected_def)
  have m: "map o_status (map (\<lambda>r. if o_order_id r = 1 then r\<lparr>o_status := Cancelled\<rparr> else r)
             (orders sample_db)) = [Cancelled, Shipped]"
    by (simp add: sample_db_def)
  show ?thesis
    using self_service_cancel[OF d, of "''clerk_1''" 1] self_service_cancel[OF d, of "''clerk_1''" 2]
      self_service_cancel[OF d, of "''clerk_2''" 1] d s1 s2 s3 m
    by simp
qed

end
